theory Spec2Isabelle
  imports Main "HOL-Library.Multiset"
begin

section \<open>JavaScript strings and values\<close>

text \<open>
  A JavaScript string is modelled as a \<^typ>\<open>string\<close>: one \<^typ>\<open>char\<close> stands for one
  code unit (the model covers code units below 256). A value that may be \<^verbatim>\<open>undefined\<close>
  (the result of \<^verbatim>\<open>.attr(name)\<close>) is a \<^typ>\<open>string option\<close>, \<^term>\<open>None\<close> being
  \<^verbatim>\<open>undefined\<close>.
\<close>

datatype js_error =
    ReferenceError string
  | TypeError string
  | AxiosError string

fun message :: "js_error \<Rightarrow> string" where
  "message (ReferenceError m) = m"
| "message (TypeError m) = m"
| "message (AxiosError m) = m"

text \<open>A step that may throw, followed by a step on its value.\<close>

fun and_then :: "js_error + 'a \<Rightarrow> ('a \<Rightarrow> js_error + 'b) \<Rightarrow> js_error + 'b" where
  "and_then (Inl err) f = Inl err"
| "and_then (Inr v) f = f v"

text \<open>Truthiness of a string-or-undefined value: \<^verbatim>\<open>undefined\<close> and \<^verbatim>\<open>""\<close> are falsy.\<close>

fun truthy :: "string option \<Rightarrow> bool" where
  "truthy None = False"
| "truthy (Some s) = (s \<noteq> [])"

text \<open>\<^verbatim>\<open>a || b || ... || "literal"\<close>: the first truthy operand, else the final literal.\<close>

fun or_chain :: "string option list \<Rightarrow> string \<Rightarrow> string" where
  "or_chain [] d = d"
| "or_chain (None # vs) d = or_chain vs d"
| "or_chain (Some s # vs) d = (if s \<noteq> [] then s else or_chain vs d)"

text \<open>\<^verbatim>\<open>String.prototype.startsWith\<close> and \<^verbatim>\<open>String.prototype.includes\<close>.\<close>

fun startsWith :: "string \<Rightarrow> string \<Rightarrow> bool" where
  "startsWith s [] = True"
| "startsWith [] (p # ps) = False"
| "startsWith (c # cs) (p # ps) = (c = p \<and> startsWith cs ps)"

fun str_includes :: "string \<Rightarrow> string \<Rightarrow> bool" where
  "str_includes [] sub = (sub = [])"
| "str_includes (c # cs) sub = (startsWith (c # cs) sub \<or> str_includes cs sub)"

text \<open>\<^verbatim>\<open>String.prototype.trim\<close>: white space and line terminators are removed at both ends.\<close>

definition is_space :: "char \<Rightarrow> bool" where
  "is_space c = (of_char c \<in> {9, 10, 11, 12, 13, 32, 160 :: nat})"

definition trim :: "string \<Rightarrow> string" where
  "trim s = rev (dropWhile is_space (rev (dropWhile is_space s)))"

text \<open>\<^verbatim>\<open>String.prototype.toLowerCase\<close> on code units below 256.\<close>

definition ascii_lower :: "char \<Rightarrow> char" where
  "ascii_lower c = (let n = of_char c :: nat in if 65 \<le> n \<and> n \<le> 90 then char_of (n + 32) else c)"

definition lower_char :: "char \<Rightarrow> char" where
  "lower_char c =
     (let n = of_char c :: nat
      in if (65 \<le> n \<and> n \<le> 90) \<or> (192 \<le> n \<and> n \<le> 222 \<and> n \<noteq> 215) then char_of (n + 32) else c)"

definition toLowerCase :: "string \<Rightarrow> string" where
  "toLowerCase s = map lower_char s"

section \<open>Regular expressions of the classifier\<close>

text \<open>
  Both regular expressions of \<^verbatim>\<open>isLikelyArticleUrl\<close> are sequences of single-character
  classes (with one alternation of literals), searched for anywhere in the subject, as
  \<^verbatim>\<open>String.prototype.match\<close> does for a pattern without anchors.
\<close>

fun match_here :: "(char \<Rightarrow> bool) list \<Rightarrow> string \<Rightarrow> bool" where
  "match_here [] s = True"
| "match_here (p # ps) [] = False"
| "match_here (p # ps) (c # cs) = (p c \<and> match_here ps cs)"

fun regex_search :: "(char \<Rightarrow> bool) list \<Rightarrow> string \<Rightarrow> bool" where
  "regex_search ps [] = match_here ps []"
| "regex_search ps (c # cs) = (match_here ps (c # cs) \<or> regex_search ps cs)"

definition lit :: "char \<Rightarrow> char \<Rightarrow> bool" where
  "lit l c = (c = l)"

text \<open>
  A literal under the \<^verbatim>\<open>i\<close> flag (no \<^verbatim>\<open>u\<close> flag): for a lower-case ASCII letter of the
  pattern, exactly the letter and its ASCII upper-case form match.
\<close>

definition lit_i :: "char \<Rightarrow> char \<Rightarrow> bool" where
  "lit_i l c = (ascii_lower c = l)"

definition is_digit :: "char \<Rightarrow> bool" where
  "is_digit c = (c \<in> set ''0123456789'')"

text \<open>\<^verbatim>\<open>/\/202\d\/\d{2}\/\d{2}\//\<close>\<close>

definition dated_pattern :: "(char \<Rightarrow> bool) list" where
  "dated_pattern =
     map lit ''/202'' @ [is_digit, lit CHR ''/'', is_digit, is_digit, lit CHR ''/'',
       is_digit, is_digit, lit CHR ''/'']"

text \<open>\<^verbatim>\<open>/\/(news|story|article|post|politics|tech|business)\//i\<close>\<close>

definition vocabulary :: "string list" where
  "vocabulary = [''news'', ''story'', ''article'', ''post'', ''politics'', ''tech'', ''business'']"

definition section_pattern :: "string \<Rightarrow> (char \<Rightarrow> bool) list" where
  "section_pattern w = lit CHR ''/'' # map lit_i w @ [lit CHR ''/'']"

section \<open>The capabilities the scraper depends on\<close>

text \<open>
  \<^verbatim>\<open>new URL(input, base)\<close> of Node's \<^verbatim>\<open>url\<close> module yields the parts of the parsed URL,
  or nothing where the constructor throws \<^verbatim>\<open>TypeError: Invalid URL\<close>.
\<close>

record url =
  href :: string
  origin :: string
  hostname :: string
  pathname :: string

text \<open>
  A parsed page answers selector queries (\<^verbatim>\<open>$(selector)\<close>) with the matched elements in
  document order. An element carries its attributes, its text, the answers to
  \<^verbatim>\<open>.find(selector)\<close> below it and its next sibling (\<^verbatim>\<open>.next()\<close>, empty or one element).
\<close>

datatype element =
  Element (el_attr: "string \<Rightarrow> string option") (el_text: string)
    (el_find: "string \<Rightarrow> element list") (el_next: "element list")

type_synonym document = "string \<Rightarrow> element list"

text \<open>
  The environment of one call: the URL constructor, \<^verbatim>\<open>axios.get(url, {timeout})\<close> followed
  by \<^verbatim>\<open>cheerio.load\<close> of the body (\<^term>\<open>Inl\<close> carries the message of the rejection),
  \<^verbatim>\<open>new Date(s).getTime()\<close> (\<^term>\<open>None\<close> for \<^verbatim>\<open>NaN\<close>) and the wall clock read by
  \<^verbatim>\<open>new Date().toISOString()\<close>.
\<close>

record env =
  new_URL :: "string \<Rightarrow> string option \<Rightarrow> url option"
  axios_get :: "string \<Rightarrow> nat option \<Rightarrow> string + document"
  Date_getTime :: "string \<Rightarrow> int option"
  Date_now_toISOString :: string

text \<open>Cheerio collections: \<^verbatim>\<open>.attr\<close> reads the first element, \<^verbatim>\<open>.text\<close> joins all of them.\<close>

fun cheerio_attr :: "element list \<Rightarrow> string \<Rightarrow> string option" where
  "cheerio_attr [] name = None"
| "cheerio_attr (el # els) name = el_attr el name"

definition cheerio_text :: "element list \<Rightarrow> string" where
  "cheerio_text els = concat (map el_text els)"

definition cheerio_first :: "element list \<Rightarrow> element list" where
  "cheerio_first els = take 1 els"

definition cheerio_find :: "element list \<Rightarrow> string \<Rightarrow> element list" where
  "cheerio_find els sel = concat (map (\<lambda>el. el_find el sel) els)"

definition cheerio_next :: "element list \<Rightarrow> element list" where
  "cheerio_next els = concat (map el_next els)"

section \<open>The URL classifier\<close>

definition isLikelyArticlePath :: "string \<Rightarrow> bool" where
  "isLikelyArticlePath p =
     (str_includes p ''/articles/'' \<or>
      regex_search dated_pattern p \<or>
      (\<exists>w \<in> set vocabulary. regex_search (section_pattern w) p))"

definition isLikelyArticleUrl :: "env \<Rightarrow> string \<Rightarrow> js_error + bool" where
  "isLikelyArticleUrl e u =
     (case new_URL e u None of
        None \<Rightarrow> Inl (TypeError ''Invalid URL'')
      | Some parsed \<Rightarrow> Inr (isLikelyArticlePath (pathname parsed)))"

text \<open>
  The classifier as the specification words it: a year-dated pattern for every year
  2000-2099, or a path segment that equals a vocabulary word.
\<close>

definition spec_dated_pattern :: "(char \<Rightarrow> bool) list" where
  "spec_dated_pattern =
     map lit ''/20'' @ [is_digit, is_digit, lit CHR ''/'', is_digit, is_digit, lit CHR ''/'',
       is_digit, is_digit, lit CHR ''/'']"

fun split_on :: "char \<Rightarrow> string \<Rightarrow> string \<Rightarrow> string list" where
  "split_on d acc [] = [rev acc]"
| "split_on d acc (c # cs) = (if c = d then rev acc # split_on d [] cs else split_on d (c # acc) cs)"

definition spec_classify :: "string \<Rightarrow> bool" where
  "spec_classify p =
     (str_includes p ''/articles/'' \<or>
      regex_search spec_dated_pattern p \<or>
      (\<exists>seg \<in> set (split_on CHR ''/'' [] p). map ascii_lower seg \<in> set vocabulary))"

text \<open>
  The condition the code decides, in words: the path contains \<^verbatim>\<open>/articles/\<close>, or a dated
  part \<^verbatim>\<open>/202Y/MM/DD/\<close> (a year 2020-2029, any two digits for month and day), or a
  vocabulary word between two slashes, in any letter case.
\<close>

definition article_like :: "string \<Rightarrow> bool" where
  "article_like p =
     ((\<exists>pre post. p = pre @ ''/articles/'' @ post) \<or>
      (\<exists>pre y m1 m2 d1 d2 post.
         p = pre @ ''/202'' @ [y] @ ''/'' @ [m1, m2] @ ''/'' @ [d1, d2] @ ''/'' @ post \<and>
         is_digit y \<and> is_digit m1 \<and> is_digit m2 \<and> is_digit d1 \<and> is_digit d2) \<or>
      (\<exists>pre w post. p = pre @ ''/'' @ w @ ''/'' @ post \<and> map ascii_lower w \<in> set vocabulary))"

section \<open>Article records\<close>

text \<open>
  \<^verbatim>\<open>link\<close> is optional because the Hacker News adapter stores the result of
  \<^verbatim>\<open>.attr("href")\<close> unchecked; \<^verbatim>\<open>content\<close> and \<^verbatim>\<open>error\<close> are the keys only some records
  have.
\<close>

record article =
  title :: string
  link :: "string option"
  author :: string
  publicationDate :: string
  source :: string
  content :: "string option"
  error :: "string option"

section \<open>Identifier resolution in scrapeArticleDetails\<close>

text \<open>
  A \<^verbatim>\<open>let\<close>/\<^verbatim>\<open>const\<close> binding exists in its block from the start of the block and
  cannot be read before its declaration has been evaluated; a name bound in no enclosing
  scope cannot be read at all. Both reads throw a \<^verbatim>\<open>ReferenceError\<close>. A scope chain lists
  the bindings innermost first.
\<close>

datatype js_value = Str string | Obj

datatype binding = Uninitialized | Bound js_value

type_synonym scope = "(string \<times> binding) list"

fun resolve :: "scope \<Rightarrow> string \<Rightarrow> js_error + js_value" where
  "resolve [] x = Inl (ReferenceError (x @ '' is not defined''))"
| "resolve ((y, b) # sc) x =
     (if x = y then
        (case b of
           Uninitialized \<Rightarrow>
             Inl (ReferenceError (''Cannot access '' @ [CHR 0x27] @ x @ [CHR 0x27] @ '' before initialization''))
         | Bound v \<Rightarrow> Inr v)
      else resolve sc x)"

text \<open>
  The names of the module: its own \<^verbatim>\<open>const\<close> declarations and the parameters of Node's
  module wrapper. The global object has no property named \<^verbatim>\<open>title\<close>, \<^verbatim>\<open>author\<close>,
  \<^verbatim>\<open>publicationDate\<close>, \<^verbatim>\<open>source\<close> or \<^verbatim>\<open>articleBody\<close>.
\<close>

definition module_scope :: scope where
  "module_scope =
     map (\<lambda>x. (x, Bound Obj))
       [''axios'', ''cheerio'', ''URL'', ''isLikelyArticleUrl'', ''scrapeNews'',
        ''scrapeDynamicSite'', ''scrapeArticleDetails'', ''scrapeBBC'', ''scrapeVerge'',
        ''scrapeCNN'', ''scrapeHackerNews'', ''exports'', ''require'', ''module'',
        ''__filename'', ''__dirname'']"

definition function_scope :: "string \<Rightarrow> string \<Rightarrow> string \<Rightarrow> scope" where
  "function_scope articleUrl fallbackTitle siteName =
     [(''articleUrl'', Bound (Str articleUrl)), (''fallbackTitle'', Bound (Str fallbackTitle)),
      (''siteName'', Bound (Str siteName))] @ module_scope"

text \<open>The declarations of the \<^verbatim>\<open>try\<close> block, as the block is entered.\<close>

definition try_block_scope :: "string \<Rightarrow> string \<Rightarrow> string \<Rightarrow> scope" where
  "try_block_scope articleUrl fallbackTitle siteName =
     map (\<lambda>x. (x, Uninitialized))
       [''articleBody'', ''articleHtml'', ''$'', ''title'', ''author'', ''publicationDate'', ''source'']
     @ function_scope articleUrl fallbackTitle siteName"

definition catch_block_scope :: "string \<Rightarrow> string \<Rightarrow> string \<Rightarrow> scope" where
  "catch_block_scope articleUrl fallbackTitle siteName =
     (''error'', Bound Obj) # function_scope articleUrl fallbackTitle siteName"

text \<open>\<^verbatim>\<open>v.trim()\<close> and \<^verbatim>\<open>v.substring(0, n)\<close> of a resolved value.\<close>

fun value_trim :: "js_value \<Rightarrow> js_error + string" where
  "value_trim (Str s) = Inr (trim s)"
| "value_trim Obj = Inl (TypeError ''trim is not a function'')"

fun value_substring :: "js_value \<Rightarrow> nat \<Rightarrow> js_error + string" where
  "value_substring (Str s) n = Inr (take n s)"
| "value_substring Obj n = Inl (TypeError ''substring is not a function'')"

section \<open>The field extractor\<close>

text \<open>The fallback chains of \<^verbatim>\<open>scrapeArticleDetails\<close>, each ending in its sentinel.\<close>

definition extract_title :: "document \<Rightarrow> string \<Rightarrow> string" where
  \<open>extract_title doc fallbackTitle =
     or_chain
       [Some (cheerio_text (cheerio_first (doc ''.headline__text''))),
        cheerio_attr (doc ''meta[property="og:title"]'') ''content'',
        cheerio_attr (doc ''meta[name="twitter:title"]'') ''content'',
        Some (cheerio_text (doc ''title'')),
        Some (cheerio_text (cheerio_first (doc ''h1''))),
        Some fallbackTitle]
       ''No title''\<close>

definition extract_author :: "document \<Rightarrow> string" where
  \<open>extract_author doc =
     or_chain
       [Some (cheerio_text (cheerio_first (doc ''.byline__name''))),
        cheerio_attr (doc ''meta[name="author"]'') ''content'',
        cheerio_attr (doc ''meta[property="article:author"]'') ''content'',
        Some (cheerio_text (cheerio_first (doc ''.author''))),
        Some (cheerio_text (cheerio_first (doc ''[class*="author"]'')))]
       ''Unknown''\<close>

definition extract_publicationDate :: "document \<Rightarrow> string" where
  \<open>extract_publicationDate doc =
     or_chain
       [Some (cheerio_text (cheerio_first (doc ''.headline__sub-description''))),
        cheerio_attr (doc ''meta[property="article:published_time"]'') ''content'',
        cheerio_attr (doc ''meta[name="publish-date"]'') ''content'',
        cheerio_attr (doc ''meta[name="date"]'') ''content'',
        cheerio_attr (cheerio_first (doc ''time'')) ''datetime'',
        Some (cheerio_text (cheerio_first (doc ''time''))),
        Some (cheerio_text (cheerio_first (doc ''.date''))),
        Some (cheerio_text (cheerio_first (doc ''[class*="date"]'')))]
       ''Unknown''\<close>

definition extract_source :: "document \<Rightarrow> string \<Rightarrow> string" where
  \<open>extract_source doc siteName =
     or_chain [cheerio_attr (doc ''meta[property="og:site_name"]'') ''content'', Some siteName]
       ''Unknown''\<close>

text \<open>
  The \<^verbatim>\<open>try\<close> block: its first statement reads \<^verbatim>\<open>$\<close>, which the block declares further
  down; then the page is fetched (timeout 5000 ms) and the record is built from the
  trimmed fields.
\<close>

definition scrapeArticleDetails_try :: "env \<Rightarrow> string \<Rightarrow> string \<Rightarrow> string \<Rightarrow> js_error + article" where
  "scrapeArticleDetails_try e articleUrl fallbackTitle siteName =
     (case resolve (try_block_scope articleUrl fallbackTitle siteName) ''$'' of
        Inl err \<Rightarrow> Inl err
      | Inr _ \<Rightarrow>
          (case axios_get e articleUrl (Some 5000) of
             Inl m \<Rightarrow> Inl (AxiosError m)
           | Inr doc \<Rightarrow>
               Inr \<lparr>title = trim (extract_title doc fallbackTitle),
                    link = Some articleUrl,
                    author = trim (extract_author doc),
                    publicationDate = trim (extract_publicationDate doc),
                    source = trim (extract_source doc siteName),
                    content = None, error = None\<rparr>))"

text \<open>
  The \<^verbatim>\<open>catch\<close> block builds its record from \<^verbatim>\<open>title\<close>, \<^verbatim>\<open>author\<close>,
  \<^verbatim>\<open>publicationDate\<close>, \<^verbatim>\<open>source\<close> and \<^verbatim>\<open>articleBody\<close>, in this order.
\<close>

definition scrapeArticleDetails_catch :: "string \<Rightarrow> string \<Rightarrow> string \<Rightarrow> js_error + article" where
  "scrapeArticleDetails_catch articleUrl fallbackTitle siteName =
     (let sc = catch_block_scope articleUrl fallbackTitle siteName in
      and_then (and_then (resolve sc ''title'') value_trim) (\<lambda>t.
      and_then (and_then (resolve sc ''author'') value_trim) (\<lambda>a.
      and_then (and_then (resolve sc ''publicationDate'') value_trim) (\<lambda>d.
      and_then (and_then (resolve sc ''source'') value_trim) (\<lambda>s.
      and_then (and_then (resolve sc ''articleBody'') (\<lambda>v. value_substring v 2000)) (\<lambda>b.
        Inr \<lparr>title = t, link = Some articleUrl, author = a, publicationDate = d, source = s,
             content = Some (b @ ''...''), error = None\<rparr>))))))"

definition scrapeArticleDetails :: "env \<Rightarrow> string \<Rightarrow> string \<Rightarrow> string \<Rightarrow> js_error + article" where
  "scrapeArticleDetails e articleUrl fallbackTitle siteName =
     (case scrapeArticleDetails_try e articleUrl fallbackTitle siteName of
        Inr a \<Rightarrow> Inr a
      | Inl err \<Rightarrow> scrapeArticleDetails_catch articleUrl fallbackTitle siteName)"

section \<open>Link discovery and the dynamic site scraper\<close>

definition linkSelectors :: "string list" where
  \<open>linkSelectors =
     [''a[href*="/article"]'', ''a[href*="/news"]'', ''a[href*="/story"]'', ''a[href*="/202"]'',
      ''article a'', ''h2 a'', ''h3 a'', ''.headline a'']\<close>

text \<open>
  \<^verbatim>\<open>foundLinks\<close> is a \<^verbatim>\<open>Set\<close> of the strings \<^verbatim>\<open>JSON.stringify({url, title})\<close>, read back
  with \<^verbatim>\<open>JSON.parse\<close>. The encoding is one-to-one on pairs of strings, so the set is
  modelled as the list of the pairs (url, title) in insertion order, without repetition.
\<close>

type_synonym linkObj = "string \<times> string"

definition Set_add :: "'a list \<Rightarrow> 'a \<Rightarrow> 'a list" where
  "Set_add s x = (if x \<in> set s then s else s @ [x])"

text \<open>The callback of \<^verbatim>\<open>$(selector).each\<close>, on one matched element.\<close>

definition visit_link :: "env \<Rightarrow> string \<Rightarrow> linkObj list \<Rightarrow> element \<Rightarrow> js_error + linkObj list" where
  "visit_link e baseUrl foundLinks el =
     (if length foundLinks \<ge> 10 then Inr foundLinks
      else
        (let hrefv = cheerio_attr [el] ''href'';
             text = trim (cheerio_text [el])
         in case hrefv of
              None \<Rightarrow> Inr foundLinks
            | Some h \<Rightarrow>
                if h \<noteq> [] \<and> length text > 10 \<and> \<not> str_includes h ''tag'' \<and> \<not> str_includes h ''mailto''
                then
                  (if startsWith h ''http'' then Inr (Set_add foundLinks (h, text))
                   else
                     (case new_URL e h (Some baseUrl) of
                        None \<Rightarrow> Inl (TypeError ''Invalid URL'')
                      | Some u \<Rightarrow> Inr (Set_add foundLinks (href u, text))))
                else Inr foundLinks))"

fun visit_links :: "env \<Rightarrow> string \<Rightarrow> linkObj list \<Rightarrow> element list \<Rightarrow> js_error + linkObj list" where
  "visit_links e baseUrl foundLinks [] = Inr foundLinks"
| "visit_links e baseUrl foundLinks (el # els) =
     (case visit_link e baseUrl foundLinks el of
        Inl err \<Rightarrow> Inl err
      | Inr found \<Rightarrow> visit_links e baseUrl found els)"

text \<open>
  The selectors are visited in order and, for each, its matches in document order: the
  nested loops run over the concatenation of the matches.
\<close>

definition collectLinks :: "env \<Rightarrow> document \<Rightarrow> string \<Rightarrow> js_error + linkObj list" where
  "collectLinks e doc baseUrl = visit_links e baseUrl [] (concat (map doc linkSelectors))"

definition discoverLinks :: "env \<Rightarrow> document \<Rightarrow> string \<Rightarrow> js_error + linkObj list" where
  "discoverLinks e doc baseUrl =
     (case collectLinks e doc baseUrl of
        Inl err \<Rightarrow> Inl err
      | Inr foundLinks \<Rightarrow> Inr (take 8 foundLinks))"

text \<open>
  The entry an anchor contributes when the callback keeps it: its \<^verbatim>\<open>href\<close> is present and
  non-empty and contains neither \<^verbatim>\<open>tag\<close> nor \<^verbatim>\<open>mailto\<close>, its trimmed text is longer than
  10, and the entry pairs the \<^verbatim>\<open>href\<close> (resolved against the base unless it starts with
  \<^verbatim>\<open>http\<close>) with the trimmed text.
\<close>

definition kept_link :: "env \<Rightarrow> string \<Rightarrow> element \<Rightarrow> linkObj \<Rightarrow> bool" where
  "kept_link e baseUrl el l =
     (\<exists>h. cheerio_attr [el] ''href'' = Some h \<and> h \<noteq> [] \<and>
          10 < length (trim (cheerio_text [el])) \<and>
          \<not> str_includes h ''tag'' \<and> \<not> str_includes h ''mailto'' \<and>
          snd l = trim (cheerio_text [el]) \<and>
          (if startsWith h ''http'' then fst l = h
           else \<exists>p. new_URL e h (Some baseUrl) = Some p \<and> fst l = href p))"

definition degraded :: "string \<Rightarrow> linkObj \<Rightarrow> article" where
  "degraded siteName l =
     \<lparr>title = snd l, link = Some (fst l), author = ''Unknown'', publicationDate = ''Unknown'',
      source = siteName, content = None, error = None\<rparr>"

fun scrapeCandidates :: "env \<Rightarrow> string \<Rightarrow> linkObj list \<Rightarrow> article list" where
  "scrapeCandidates e siteName [] = []"
| "scrapeCandidates e siteName (l # ls) =
     (case scrapeArticleDetails e (fst l) (snd l) siteName of
        Inr a \<Rightarrow> a
      | Inl err \<Rightarrow> degraded siteName l)
     # scrapeCandidates e siteName ls"

definition scrapeDynamicSite_try :: "env \<Rightarrow> string \<Rightarrow> js_error + article list" where
  "scrapeDynamicSite_try e u =
     (case new_URL e u None of
        None \<Rightarrow> Inl (TypeError ''Invalid URL'')
      | Some parsed \<Rightarrow>
          (let siteName = hostname parsed in
           case isLikelyArticleUrl e u of
             Inl err \<Rightarrow> Inl err
           | Inr True \<Rightarrow>
               (case scrapeArticleDetails e u ''Single Article'' siteName of
                  Inl err \<Rightarrow> Inl err
                | Inr a \<Rightarrow> Inr [a])
           | Inr False \<Rightarrow>
               (case axios_get e u (Some 10000) of
                  Inl m \<Rightarrow> Inl (AxiosError m)
                | Inr doc \<Rightarrow>
                    (case discoverLinks e doc (origin parsed) of
                       Inl err \<Rightarrow> Inl err
                     | Inr linkObjects \<Rightarrow> Inr (scrapeCandidates e siteName linkObjects)))))"

definition error_record :: "env \<Rightarrow> string \<Rightarrow> js_error \<Rightarrow> article" where
  "error_record e u err =
     \<lparr>title = ''Error scraping '' @ u, link = Some u, author = ''System'',
      publicationDate = Date_now_toISOString e, source = ''Error'', content = None,
      error = Some (message err)\<rparr>"

definition scrapeDynamicSite :: "env \<Rightarrow> string \<Rightarrow> article list" where
  "scrapeDynamicSite e u =
     (case scrapeDynamicSite_try e u of
        Inr articles \<Rightarrow> articles
      | Inl err \<Rightarrow> [error_record e u err])"

section \<open>The site adapters\<close>

text \<open>\<^verbatim>\<open>if (!articleLinks.includes(fullUrl)) articleLinks.push(fullUrl)\<close>\<close>

definition push_new :: "string list \<Rightarrow> string \<Rightarrow> string list" where
  "push_new articleLinks fullUrl =
     (if fullUrl \<in> set articleLinks then articleLinks else articleLinks @ [fullUrl])"

definition absolute :: "string \<Rightarrow> string \<Rightarrow> string" where
  "absolute site l = (if startsWith l ''http'' then l else site @ l)"

text \<open>
  Every adapter fetches its listing page outside any \<^verbatim>\<open>try\<close>; the articles of BBC, The
  Verge and CNN are fetched one after the other, each inside a \<^verbatim>\<open>try\<close> whose handler
  only logs.
\<close>

definition bbc_link :: "string list \<Rightarrow> element \<Rightarrow> string list" where
  "bbc_link articleLinks el =
     (case cheerio_attr [el] ''href'' of
        None \<Rightarrow> articleLinks
      | Some l \<Rightarrow>
          if l \<noteq> [] \<and> \<not> str_includes l ''/live/'' \<and> \<not> str_includes l ''#'' \<and> length articleLinks < 5
          then push_new articleLinks (absolute ''https://www.bbc.com'' l)
          else articleLinks)"

fun bbc_articles :: "env \<Rightarrow> string list \<Rightarrow> article list" where
  "bbc_articles e [] = []"
| \<open>bbc_articles e (l # ls) =
     (case axios_get e l None of
        Inl m \<Rightarrow> bbc_articles e ls
      | Inr d \<Rightarrow>
          \<lparr>title = or_chain [cheerio_attr (d ''meta[property="og:title"]'') ''content''] ''No title'',
           link = Some l,
           author = or_chain [cheerio_attr (d ''meta[name="byl"]'') ''content''] ''BBC News'',
           publicationDate =
             or_chain [cheerio_attr (d ''meta[property="article:published_time"]'') ''content''] ''Unknown'',
           source = or_chain [cheerio_attr (d ''meta[property="og:site_name"]'') ''content''] ''BBC News'',
           content = None, error = None\<rparr>
          # bbc_articles e ls)\<close>

definition scrapeBBC :: "env \<Rightarrow> js_error + article list" where
  "scrapeBBC e =
     (case axios_get e ''https://www.bbc.com/news'' None of
        Inl m \<Rightarrow> Inl (AxiosError m)
      | Inr doc \<Rightarrow> Inr (bbc_articles e (foldl bbc_link [] (doc ''a.gs-c-promo-heading''))))"

definition verge_link :: "string list \<Rightarrow> element \<Rightarrow> string list" where
  "verge_link articleLinks el =
     (case cheerio_attr [el] ''href'' of
        None \<Rightarrow> articleLinks
      | Some l \<Rightarrow>
          if l \<noteq> [] \<and> length articleLinks < 5
          then push_new articleLinks (absolute ''https://www.theverge.com'' l)
          else articleLinks)"

fun verge_articles :: "env \<Rightarrow> string list \<Rightarrow> article list" where
  "verge_articles e [] = []"
| \<open>verge_articles e (l # ls) =
     (case axios_get e l None of
        Inl m \<Rightarrow> verge_articles e ls
      | Inr d \<Rightarrow>
          \<lparr>title = or_chain [cheerio_attr (d ''meta[property="og:title"]'') ''content''] ''No title'',
           link = Some l,
           author = or_chain [cheerio_attr (d ''meta[name="author"]'') ''content''] ''Unknown'',
           publicationDate =
             or_chain [cheerio_attr (d ''meta[property="article:published_time"]'') ''content''] ''Unknown'',
           source = or_chain [cheerio_attr (d ''meta[property="og:site_name"]'') ''content''] ''The Verge'',
           content = None, error = None\<rparr>
          # verge_articles e ls)\<close>

definition scrapeVerge :: "env \<Rightarrow> js_error + article list" where
  \<open>scrapeVerge e =
     (case axios_get e ''https://www.theverge.com/'' None of
        Inl m \<Rightarrow> Inl (AxiosError m)
      | Inr doc \<Rightarrow>
          Inr (verge_articles e (foldl verge_link [] (doc ''a[data-analytics-link="article"]''))))\<close>

definition cnn_link :: "string list \<Rightarrow> element \<Rightarrow> string list" where
  "cnn_link articleLinks el =
     (case cheerio_attr [el] ''href'' of
        None \<Rightarrow> articleLinks
      | Some l \<Rightarrow>
          if l \<noteq> [] \<and> length articleLinks < 5
          then push_new articleLinks (absolute ''https://edition.cnn.com'' l)
          else articleLinks)"

fun cnn_articles :: "env \<Rightarrow> string list \<Rightarrow> article list" where
  "cnn_articles e [] = []"
| \<open>cnn_articles e (l # ls) =
     (case axios_get e l None of
        Inl m \<Rightarrow> cnn_articles e ls
      | Inr d \<Rightarrow>
          \<lparr>title = or_chain [cheerio_attr (d ''meta[property="og:title"]'') ''content''] ''No title'',
           link = Some l,
           author = or_chain [cheerio_attr (d ''meta[name="author"]'') ''content''] ''CNN'',
           publicationDate =
             or_chain [cheerio_attr (d ''meta[property="article:published_time"]'') ''content''] ''Unknown'',
           source = or_chain [cheerio_attr (d ''meta[property="og:site_name"]'') ''content''] ''CNN'',
           content = None, error = None\<rparr>
          # cnn_articles e ls)\<close>

definition scrapeCNN :: "env \<Rightarrow> js_error + article list" where
  \<open>scrapeCNN e =
     (case axios_get e ''https://edition.cnn.com/'' None of
        Inl m \<Rightarrow> Inl (AxiosError m)
      | Inr doc \<Rightarrow> Inr (cnn_articles e (foldl cnn_link [] (doc ''a[href^="/202"]''))))\<close>

text \<open>
  Hacker News: one record per \<^verbatim>\<open>.athing\<close> row, built from the listing page alone. The
  title and the link are stored as the queries return them; the host of the link is
  resolved against the listing URL, outside any \<^verbatim>\<open>try\<close>.
\<close>

definition hn_url :: string where
  "hn_url = ''https://news.ycombinator.com/''"

definition hn_row :: "env \<Rightarrow> element \<Rightarrow> js_error + article" where
  "hn_row e el =
     (let t = cheerio_text (cheerio_find [el] ''.titleline a'');
          l = cheerio_attr (cheerio_find [el] ''.titleline a'') ''href''
      in case (if truthy l
               then (case new_URL e (case l of Some h \<Rightarrow> h | None \<Rightarrow> []) (Some hn_url) of
                       None \<Rightarrow> Inl (TypeError ''Invalid URL'')
                     | Some u \<Rightarrow> Inr (hostname u))
               else Inr ''Unknown'') of
           Inl err \<Rightarrow> Inl err
         | Inr site \<Rightarrow>
             (let subtext = cheerio_find (cheerio_next [el]) ''.subtext'' in
              Inr \<lparr>title = t, link = l,
                   author = or_chain [Some (cheerio_text (cheerio_find subtext ''.hnuser''))] ''Unknown'',
                   publicationDate = or_chain [Some (cheerio_text (cheerio_find subtext ''.age''))] ''Unknown'',
                   source = site, content = None, error = None\<rparr>))"

fun hn_rows :: "env \<Rightarrow> element list \<Rightarrow> js_error + article list" where
  "hn_rows e [] = Inr []"
| "hn_rows e (el # els) =
     (case hn_row e el of
        Inl err \<Rightarrow> Inl err
      | Inr a \<Rightarrow> (case hn_rows e els of Inl err \<Rightarrow> Inl err | Inr news \<Rightarrow> Inr (a # news)))"

definition scrapeHackerNews :: "env \<Rightarrow> js_error + article list" where
  "scrapeHackerNews e =
     (case axios_get e hn_url None of
        Inl m \<Rightarrow> Inl (AxiosError m)
      | Inr doc \<Rightarrow>
          (case hn_rows e (doc ''.athing'') of
             Inl err \<Rightarrow> Inl err
           | Inr news \<Rightarrow> Inr (take 5 news)))"

text \<open>
  \<^verbatim>\<open>Promise.all\<close> of the four adapters: fulfilled with all four results when every
  adapter is fulfilled, rejected as soon as one is rejected. When a single adapter is
  rejected, its rejection is the one reported. When several are, the code reports the one
  that is rejected first in time, which the model does not follow: it reports the first
  in array order, and only the fact of rejection is used below.
\<close>

definition scrapeDefaultSites :: "env \<Rightarrow> js_error + article list" where
  "scrapeDefaultSites e =
     and_then (scrapeBBC e) (\<lambda>bbc.
     and_then (scrapeVerge e) (\<lambda>verge.
     and_then (scrapeCNN e) (\<lambda>cnn.
     and_then (scrapeHackerNews e) (\<lambda>hacker.
       Inr (bbc @ verge @ cnn @ hacker)))))"

section \<open>Sorting\<close>

text \<open>
  \<^verbatim>\<open>Array.prototype.sort(comparefn)\<close> as the engine of Node (V8) runs it on an array of
  fewer than 64 elements: the run at the start of the array is counted (weakly ascending,
  or strictly descending and then reversed), and the remaining elements are inserted into
  it one by one, each at the position a binary search finds. The comparator is called as
  \<^verbatim>\<open>comparefn(pivot, a[mid])\<close> in the search and as \<^verbatim>\<open>comparefn(a[i], a[i - 1])\<close> in the
  run count. No array that \<^verbatim>\<open>scrapeNews\<close> sorts has more than 20 records.
\<close>

type_synonym 'a comparefn = "'a \<Rightarrow> 'a \<Rightarrow> int"

fun run_length :: "'a comparefn \<Rightarrow> bool \<Rightarrow> 'a \<Rightarrow> 'a list \<Rightarrow> nat" where
  "run_length cmp desc prev [] = 0"
| "run_length cmp desc prev (x # xs) =
     (let order = cmp x prev
      in if (if desc then order \<ge> 0 else order < 0) then 0
         else Suc (run_length cmp desc x xs))"

fun countAndMakeRun :: "'a comparefn \<Rightarrow> 'a list \<Rightarrow> 'a list \<times> 'a list" where
  "countAndMakeRun cmp [] = ([], [])"
| "countAndMakeRun cmp [x] = ([x], [])"
| "countAndMakeRun cmp (x0 # x1 # xs) =
     (let desc = cmp x1 x0 < 0;
          n = run_length cmp desc x1 xs;
          run = x0 # x1 # take n xs
      in (if desc then rev run else run, drop n xs))"

function binary_search :: "'a comparefn \<Rightarrow> 'a \<Rightarrow> 'a list \<Rightarrow> nat \<Rightarrow> nat \<Rightarrow> nat" where
  "binary_search cmp pivot a left right =
     (if left < right then
        (let mid = left + (right - left) div 2
         in if cmp pivot (a ! mid) < 0 then binary_search cmp pivot a left mid
            else binary_search cmp pivot a (mid + 1) right)
      else left)"
  by pat_completeness auto
termination
  by (relation "measure (\<lambda>(cmp, pivot, a, left, right). right - left)") auto

declare binary_search.simps [simp del]

fun binaryInsertionSort :: "'a comparefn \<Rightarrow> 'a list \<Rightarrow> 'a list \<Rightarrow> 'a list" where
  "binaryInsertionSort cmp pre [] = pre"
| "binaryInsertionSort cmp pre (pivot # rest) =
     (let left = binary_search cmp pivot pre 0 (length pre)
      in binaryInsertionSort cmp (take left pre @ pivot # drop left pre) rest)"

definition Array_sort :: "'a comparefn \<Rightarrow> 'a list \<Rightarrow> 'a list" where
  "Array_sort cmp a =
     (if length a < 2 then a
      else (case countAndMakeRun cmp a of (run, rest) \<Rightarrow> binaryInsertionSort cmp run rest))"

section \<open>The aggregator\<close>

definition matches_keyword :: "string \<Rightarrow> article \<Rightarrow> bool" where
  "matches_keyword lowerCaseKeyword a =
     (str_includes (toLowerCase (title a)) lowerCaseKeyword \<or>
      str_includes (toLowerCase (author a)) lowerCaseKeyword \<or>
      str_includes (toLowerCase (source a)) lowerCaseKeyword)"

text \<open>The time value of a record's \<^verbatim>\<open>publicationDate\<close>, where it parses.\<close>

definition parsedDate :: "env \<Rightarrow> article \<Rightarrow> int option" where
  "parsedDate e a = Date_getTime e (publicationDate a)"

definition timeOf :: "env \<Rightarrow> article \<Rightarrow> int" where
  "timeOf e a = (case parsedDate e a of None \<Rightarrow> 0 | Some t \<Rightarrow> t)"

definition compareByDate :: "env \<Rightarrow> article comparefn" where
  "compareByDate e a b =
     (case Date_getTime e (publicationDate a) of
        None \<Rightarrow> 1
      | Some dateA \<Rightarrow>
          (case Date_getTime e (publicationDate b) of
             None \<Rightarrow> - 1
           | Some dateB \<Rightarrow> dateB - dateA))"

definition hasKeywordInTitle :: "string \<Rightarrow> article \<Rightarrow> bool" where
  "hasKeywordInTitle lowerCaseKeyword a = str_includes (toLowerCase (title a)) lowerCaseKeyword"

definition compareByRelevance :: "string \<Rightarrow> article comparefn" where
  "compareByRelevance lowerCaseKeyword a b =
     (let aHasKeywordInTitle = hasKeywordInTitle lowerCaseKeyword a;
          bHasKeywordInTitle = hasKeywordInTitle lowerCaseKeyword b
      in if aHasKeywordInTitle \<and> \<not> bHasKeywordInTitle then - 1
         else if \<not> aHasKeywordInTitle \<and> bHasKeywordInTitle then 1
         else 0)"

definition filterArticles :: "string \<Rightarrow> article list \<Rightarrow> article list" where
  "filterArticles keyword allArticles =
     (if keyword \<noteq> [] then filter (matches_keyword (toLowerCase keyword)) allArticles
      else allArticles)"

definition sortArticles :: "env \<Rightarrow> string \<Rightarrow> string \<Rightarrow> article list \<Rightarrow> article list" where
  "sortArticles e keyword sortBy allArticles =
     (if sortBy = ''date'' then Array_sort (compareByDate e) allArticles
      else if sortBy = ''relevance'' \<and> keyword \<noteq> []
      then Array_sort (compareByRelevance (toLowerCase keyword)) allArticles
      else allArticles)"

definition scrapeNews :: "env \<Rightarrow> string \<Rightarrow> string \<Rightarrow> string \<Rightarrow> js_error + article list" where
  "scrapeNews e targetUrl keyword sortBy =
     (case (if targetUrl \<noteq> [] then Inr (scrapeDynamicSite e targetUrl) else scrapeDefaultSites e) of
        Inl err \<Rightarrow> Inl err
      | Inr allArticles \<Rightarrow> Inr (sortArticles e keyword sortBy (filterArticles keyword allArticles)))"

section \<open>A mocked environment\<close>

text \<open>
  A fixed document source used to run the model on concrete inputs: a listing page on
  \<^verbatim>\<open>example.org\<close>, a host that refuses connections, and the four default sites.
\<close>

definition mk_url :: "string \<Rightarrow> string \<Rightarrow> string \<Rightarrow> url" where
  "mk_url org host path = \<lparr>href = org @ path, origin = org, hostname = host, pathname = path\<rparr>"

definition mock_URL :: "string \<Rightarrow> string option \<Rightarrow> url option" where
  "mock_URL input base =
     (if startsWith input ''https://example.org/''
      then Some (mk_url ''https://example.org'' ''example.org'' (drop 19 input))
      else if startsWith input ''https://down.example/''
      then Some (mk_url ''https://down.example'' ''down.example'' (drop 20 input))
      else if startsWith input ''https://blog.example.com/''
      then Some (mk_url ''https://blog.example.com'' ''blog.example.com'' (drop 24 input))
      else if startsWith input ''/'' \<and> base = Some ''https://example.org''
      then Some (mk_url ''https://example.org'' ''example.org'' input)
      else if startsWith input ''item?'' \<and> base = Some ''https://news.ycombinator.com/''
      then Some (mk_url ''https://news.ycombinator.com'' ''news.ycombinator.com'' (''/'' @ input))
      else None)"

definition anchor :: "string \<Rightarrow> string \<Rightarrow> element" where
  "anchor h t = Element (\<lambda>n. if n = ''href'' then Some h else None) t (\<lambda>sel. []) []"

definition meta :: "string \<Rightarrow> element" where
  "meta c = Element (\<lambda>n. if n = ''content'' then Some c else None) [] (\<lambda>sel. []) []"

definition span :: "string \<Rightarrow> element" where
  "span t = Element (\<lambda>n. None) t (\<lambda>sel. []) []"

definition listing_page :: document where
  \<open>listing_page sel =
     (if sel = ''a[href*="/story"]'' then
        [anchor ''/story/alpha'' ''  Alpha story headline  '',
         anchor ''/story/alpha'' ''Alpha: the second headline'',
         anchor ''/story/tagged'' ''A headline under a tag'']
      else if sel = ''h2 a'' then
        [anchor ''/story/alpha'' ''  Alpha story headline  '',
         anchor ''mailto:desk@example.org'' ''Write to the news desk'',
         anchor ''/about'' ''About us'']
      else [])\<close>

definition bbc_page :: document where
  "bbc_page sel =
     (if sel = ''a.gs-c-promo-heading'' then
        [anchor ''/news/world-1'' ''World'', anchor ''/news/live/world-2'' ''Live'',
         anchor ''/news/world-3'' ''More'']
      else [])"

definition bbc_article :: document where
  \<open>bbc_article sel =
     (if sel = ''meta[property="og:title"]'' then [meta ''World report'']
      else if sel = ''meta[property="article:published_time"]'' then [meta ''2024-01-01'']
      else [])\<close>

definition hn_subtext :: element where
  "hn_subtext =
     Element (\<lambda>n. None) []
       (\<lambda>sel. if sel = ''.subtext'' then
          [Element (\<lambda>n. None) []
             (\<lambda>sel. if sel = ''.hnuser'' then [span ''alice'']
                    else if sel = ''.age'' then [span ''2 hours ago'']
                    else [])
             []]
        else [])
       []"

definition hn_page :: document where
  "hn_page sel =
     (if sel = ''.athing'' then
        [Element (\<lambda>n. None) []
           (\<lambda>sel. if sel = ''.titleline a''
                  then [anchor ''https://blog.example.com/post'' ''Show HN: a thing'']
                  else [])
           [hn_subtext],
         Element (\<lambda>n. None) [] (\<lambda>sel. []) [hn_subtext]]
      else [])"

definition mock_get :: "string \<Rightarrow> nat option \<Rightarrow> string + document" where
  "mock_get u timeout =
     (if u = ''https://example.org/'' then Inr listing_page
      else if u = ''https://www.bbc.com/news'' then Inr bbc_page
      else if u = ''https://www.bbc.com/news/world-1'' then Inr bbc_article
      else if u = ''https://www.theverge.com/'' then Inr (\<lambda>sel. [])
      else if u = ''https://edition.cnn.com/'' then Inr (\<lambda>sel. [])
      else if u = ''https://news.ycombinator.com/'' then Inr hn_page
      else if startsWith u ''https://down.example/'' then Inl ''connect ECONNREFUSED''
      else Inl ''Request failed with status code 404'')"

definition mock_getTime :: "string \<Rightarrow> int option" where
  "mock_getTime s =
     (if s = ''2024-01-01'' then Some 1704067200000
      else if s = ''2024-06-01'' then Some 1717200000000
      else None)"

definition mock :: env where
  "mock =
     \<lparr>new_URL = mock_URL, axios_get = mock_get, Date_getTime = mock_getTime,
      Date_now_toISOString = ''2024-06-01T12:00:00.000Z''\<rparr>"

text \<open>The same environment with the BBC listing page timing out.\<close>

definition mock_bbc_down :: env where
  "mock_bbc_down =
     mock\<lparr>axios_get :=
       (\<lambda>u timeout. if u = ''https://www.bbc.com/news'' then Inl ''timeout of 0ms exceeded''
                    else mock_get u timeout)\<rparr>"

text \<open>
  A site whose origin contains the letters \<^verbatim>\<open>tag\<close>, with one headline that links to a
  relative path.
\<close>

definition tagesschau_URL :: "string \<Rightarrow> string option \<Rightarrow> url option" where
  "tagesschau_URL input base =
     (if input = ''https://www.tagesschau.de/'' \<and> base = None
      then Some (mk_url ''https://www.tagesschau.de'' ''www.tagesschau.de'' ''/'')
      else if startsWith input ''/'' \<and> base = Some ''https://www.tagesschau.de''
      then Some (mk_url ''https://www.tagesschau.de'' ''www.tagesschau.de'' input)
      else None)"

definition tagesschau_page :: document where
  "tagesschau_page sel =
     (if sel = ''h3 a'' then [anchor ''/inland/bericht-101'' ''Bericht aus dem Inland''] else [])"

definition tagesschau :: env where
  "tagesschau =
     \<lparr>new_URL = tagesschau_URL,
      axios_get =
        (\<lambda>u timeout. if u = ''https://www.tagesschau.de/'' then Inr tagesschau_page
                     else Inl ''Request failed with status code 404''),
      Date_getTime = mock_getTime,
      Date_now_toISOString = ''2024-06-01T12:00:00.000Z''\<rparr>"

definition dated :: "string \<Rightarrow> string \<Rightarrow> article" where
  "dated t d =
     \<lparr>title = t, link = Some ''https://example.org/'', author = ''Unknown'', publicationDate = d,
      source = ''example.org'', content = None, error = None\<rparr>"

section \<open>Strings: basic facts\<close>

lemma startsWith_iff: "startsWith s p \<longleftrightarrow> (\<exists>post. s = p @ post)"
  by (induction s p rule: startsWith.induct) auto

lemma includes_iff: "str_includes s sub \<longleftrightarrow> (\<exists>pre post. s = pre @ sub @ post)"
proof (induction s)
  case Nil
  then show ?case by auto
next
  case (Cons c cs)
  show ?case
  proof
    assume "str_includes (c # cs) sub"
    then consider "startsWith (c # cs) sub" | "str_includes cs sub" by auto
    then show "\<exists>pre post. c # cs = pre @ sub @ post"
    proof cases
      case 1
      then obtain post where "c # cs = sub @ post" by (auto simp: startsWith_iff)
      then have "c # cs = [] @ sub @ post" by simp
      then show ?thesis by blast
    next
      case 2
      then obtain pre post where "cs = pre @ sub @ post" using Cons.IH by auto
      then have "c # cs = (c # pre) @ sub @ post" by simp
      then show ?thesis by blast
    qed
  next
    assume "\<exists>pre post. c # cs = pre @ sub @ post"
    then obtain pre post where eq: "c # cs = pre @ sub @ post" by blast
    show "str_includes (c # cs) sub"
    proof (cases pre)
      case Nil
      with eq have "startsWith (c # cs) sub" by (auto simp: startsWith_iff)
      then show ?thesis by simp
    next
      case (Cons a pre')
      with eq have "cs = pre' @ sub @ post" by simp
      then have "str_includes cs sub" using Cons.IH by blast
      then show ?thesis by simp
    qed
  qed
qed

lemma match_here_iff:
  "match_here ps s \<longleftrightarrow> (\<exists>m post. s = m @ post \<and> list_all2 (\<lambda>p c. p c) ps m)"
proof (induction ps s rule: match_here.induct)
  case (1 s)
  then show ?case by simp
next
  case (2 p ps)
  then show ?case by simp
next
  case (3 p ps c cs)
  show ?case
  proof
    assume "match_here (p # ps) (c # cs)"
    then have "p c" and "match_here ps cs" by auto
    then obtain m post where "cs = m @ post" "list_all2 (\<lambda>p c. p c) ps m"
      using 3 by auto
    then have "c # cs = (c # m) @ post \<and> list_all2 (\<lambda>p c. p c) (p # ps) (c # m)"
      using \<open>p c\<close> by simp
    then show "\<exists>m post. c # cs = m @ post \<and> list_all2 (\<lambda>p c. p c) (p # ps) m" by blast
  next
    assume "\<exists>m post. c # cs = m @ post \<and> list_all2 (\<lambda>p c. p c) (p # ps) m"
    then obtain m post where eq: "c # cs = m @ post" and all: "list_all2 (\<lambda>p c. p c) (p # ps) m"
      by blast
    from all obtain m' where m: "m = c # m'" "p c" "list_all2 (\<lambda>p c. p c) ps m'"
      using eq by (cases m) auto
    with eq have "cs = m' @ post" by simp
    with m have "match_here ps cs" using 3 by blast
    with m show "match_here (p # ps) (c # cs)" by simp
  qed
qed

lemma regex_search_iff:
  "regex_search ps s \<longleftrightarrow> (\<exists>pre m post. s = pre @ m @ post \<and> list_all2 (\<lambda>p c. p c) ps m)"
proof (induction s)
  case Nil
  then show ?case by (auto simp: match_here_iff)
next
  case (Cons c cs)
  show ?case
  proof
    assume "regex_search ps (c # cs)"
    then consider "match_here ps (c # cs)" | "regex_search ps cs" by auto
    then show "\<exists>pre m post. c # cs = pre @ m @ post \<and> list_all2 (\<lambda>p c. p c) ps m"
    proof cases
      case 1
      then obtain m post where "c # cs = m @ post" "list_all2 (\<lambda>p c. p c) ps m"
        by (auto simp: match_here_iff)
      then have "c # cs = [] @ m @ post \<and> list_all2 (\<lambda>p c. p c) ps m" by simp
      then show ?thesis by blast
    next
      case 2
      then obtain pre m post where "cs = pre @ m @ post" "list_all2 (\<lambda>p c. p c) ps m"
        using Cons.IH by auto
      then have "c # cs = (c # pre) @ m @ post \<and> list_all2 (\<lambda>p c. p c) ps m" by simp
      then show ?thesis by blast
    qed
  next
    assume "\<exists>pre m post. c # cs = pre @ m @ post \<and> list_all2 (\<lambda>p c. p c) ps m"
    then obtain pre m post where eq: "c # cs = pre @ m @ post"
      and all: "list_all2 (\<lambda>p c. p c) ps m" by blast
    show "regex_search ps (c # cs)"
    proof (cases pre)
      case Nil
      with eq all have "match_here ps (c # cs)" by (auto simp: match_here_iff)
      then show ?thesis by simp
    next
      case (Cons a pre')
      with eq have "cs = pre' @ m @ post" by simp
      with all have "regex_search ps cs" using Cons.IH by blast
      then show ?thesis by simp
    qed
  qed
qed

section \<open>The classifier's patterns, characterised\<close>

lemma dated_match_iff:
  "list_all2 (\<lambda>p c. p c) dated_pattern m \<longleftrightarrow>
     (\<exists>y m1 m2 d1 d2.
        m = ''/202'' @ [y] @ ''/'' @ [m1, m2] @ ''/'' @ [d1, d2] @ ''/'' \<and>
        is_digit y \<and> is_digit m1 \<and> is_digit m2 \<and> is_digit d1 \<and> is_digit d2)"
  by (auto simp: list_all2_Cons1 lit_def dated_pattern_def)

lemma lit_i_match_iff: "list_all2 (\<lambda>p c. p c) (map lit_i w) x \<longleftrightarrow> map ascii_lower x = w"
  by (induction w arbitrary: x) (auto simp: list_all2_Cons1 lit_i_def)

lemma section_match_iff:
  "list_all2 (\<lambda>p c. p c) (section_pattern w) m \<longleftrightarrow>
     (\<exists>x. m = ''/'' @ x @ ''/'' \<and> map ascii_lower x = w)"
  by (auto simp: section_pattern_def list_all2_Cons1 list_all2_append1 lit_i_match_iff lit_def)

lemma dated_iff:
  "regex_search dated_pattern p \<longleftrightarrow>
     (\<exists>pre y m1 m2 d1 d2 post.
        p = pre @ ''/202'' @ [y] @ ''/'' @ [m1, m2] @ ''/'' @ [d1, d2] @ ''/'' @ post \<and>
        is_digit y \<and> is_digit m1 \<and> is_digit m2 \<and> is_digit d1 \<and> is_digit d2)"
  (is "?L \<longleftrightarrow> ?R")
proof
  assume ?L
  then obtain pre m post where p: "p = pre @ m @ post"
    and m: "list_all2 (\<lambda>p c. p c) dated_pattern m"
    unfolding regex_search_iff by blast
  from m obtain y m1 m2 d1 d2 where
    m': "m = ''/202'' @ [y] @ ''/'' @ [m1, m2] @ ''/'' @ [d1, d2] @ ''/''"
    and d: "is_digit y" "is_digit m1" "is_digit m2" "is_digit d1" "is_digit d2"
    unfolding dated_match_iff by blast
  have "p = pre @ ''/202'' @ [y] @ ''/'' @ [m1, m2] @ ''/'' @ [d1, d2] @ ''/'' @ post"
    unfolding p m' by simp
  with d show ?R by blast
next
  assume ?R
  then obtain pre y m1 m2 d1 d2 post where
    p: "p = pre @ ''/202'' @ [y] @ ''/'' @ [m1, m2] @ ''/'' @ [d1, d2] @ ''/'' @ post"
    and d: "is_digit y" "is_digit m1" "is_digit m2" "is_digit d1" "is_digit d2"
    by blast
  have "list_all2 (\<lambda>p c. p c) dated_pattern (''/202'' @ [y] @ ''/'' @ [m1, m2] @ ''/'' @ [d1, d2] @ ''/'')"
    unfolding dated_match_iff using d by blast
  moreover have "p = pre @ (''/202'' @ [y] @ ''/'' @ [m1, m2] @ ''/'' @ [d1, d2] @ ''/'') @ post"
    unfolding p by simp
  ultimately show ?L unfolding regex_search_iff by blast
qed

lemma section_iff:
  "regex_search (section_pattern w) p \<longleftrightarrow>
     (\<exists>pre x post. p = pre @ ''/'' @ x @ ''/'' @ post \<and> map ascii_lower x = w)"
  (is "?L \<longleftrightarrow> ?R")
proof
  assume ?L
  then obtain pre m post where p: "p = pre @ m @ post"
    and m: "list_all2 (\<lambda>p c. p c) (section_pattern w) m"
    unfolding regex_search_iff by blast
  from m obtain x where m': "m = ''/'' @ x @ ''/''" and x: "map ascii_lower x = w"
    unfolding section_match_iff by blast
  have "p = pre @ ''/'' @ x @ ''/'' @ post" unfolding p m' by simp
  with x show ?R by blast
next
  assume ?R
  then obtain pre x post where p: "p = pre @ ''/'' @ x @ ''/'' @ post" and x: "map ascii_lower x = w"
    by blast
  have "list_all2 (\<lambda>p c. p c) (section_pattern w) (''/'' @ x @ ''/'')"
    unfolding section_match_iff using x by blast
  moreover have "p = pre @ (''/'' @ x @ ''/'') @ post" unfolding p by simp
  ultimately show ?L unfolding regex_search_iff by blast
qed


lemma vocabulary_iff:
  "(\<exists>w \<in> set vocabulary. regex_search (section_pattern w) p) \<longleftrightarrow>
     (\<exists>pre w post. p = pre @ ''/'' @ w @ ''/'' @ post \<and> map ascii_lower w \<in> set vocabulary)"
  (is "?L \<longleftrightarrow> ?R")
proof
  assume ?L
  then obtain w where w: "w \<in> set vocabulary" and r: "regex_search (section_pattern w) p"
    by (rule bexE)
  from r have "\<exists>pre x post. p = pre @ ''/'' @ x @ ''/'' @ post \<and> map ascii_lower x = w"
    by (rule section_iff[THEN iffD1])
  then obtain pre x post where p: "p = pre @ ''/'' @ x @ ''/'' @ post" and x: "map ascii_lower x = w"
    by (elim exE conjE)
  from w x have "map ascii_lower x \<in> set vocabulary" by (simp only:)
  with p have "p = pre @ ''/'' @ x @ ''/'' @ post \<and> map ascii_lower x \<in> set vocabulary" by (rule conjI)
  then show ?R by (intro exI)
next
  assume ?R
  then obtain pre x post where p: "p = pre @ ''/'' @ x @ ''/'' @ post"
    and x: "map ascii_lower x \<in> set vocabulary"
    by (elim exE conjE)
  have "p = pre @ ''/'' @ x @ ''/'' @ post \<and> map ascii_lower x = map ascii_lower x"
    using p by (intro conjI refl)
  then have "\<exists>pre x' post. p = pre @ ''/'' @ x' @ ''/'' @ post \<and> map ascii_lower x' = map ascii_lower x"
    by (intro exI)
  then have "regex_search (section_pattern (map ascii_lower x)) p"
    by (rule section_iff[THEN iffD2])
  with x show ?L by (rule bexI[rotated])
qed

lemma isLikelyArticlePath_iff: "isLikelyArticlePath p \<longleftrightarrow> article_like p"
  by (simp only: isLikelyArticlePath_def article_like_def includes_iff dated_iff vocabulary_iff)

section \<open>The sort: binary insertion into the first run\<close>

lemma binary_search_correct:
  assumes "left \<le> k" "k \<le> right"
    and "\<forall>i. left \<le> i \<and> i < k \<longrightarrow> \<not> cmp p (a ! i) < 0"
    and "\<forall>i. k \<le> i \<and> i < right \<longrightarrow> cmp p (a ! i) < 0"
  shows "binary_search cmp p a left right = k"
  using assms
proof (induction cmp p a left right rule: binary_search.induct)
  case (1 cmp pivot a left right)
  show ?case
  proof (cases "left < right")
    case False
    with "1.prems" have "left = k" by simp
    with False show ?thesis by (subst binary_search.simps) simp
  next
    case True
    define mid where "mid = left + (right - left) div 2"
    have mid: "left \<le> mid" "mid < right" using True by (auto simp: mid_def)
    show ?thesis
    proof (cases "cmp pivot (a ! mid) < 0")
      case lt: True
      have "k \<le> mid"
      proof (rule ccontr)
        assume "\<not> k \<le> mid"
        then have "left \<le> mid \<and> mid < k" using mid by simp
        with "1.prems"(3) lt show False by blast
      qed
      moreover have "\<forall>i. k \<le> i \<and> i < mid \<longrightarrow> cmp pivot (a ! i) < 0"
        using "1.prems"(4) mid by auto
      ultimately have "binary_search cmp pivot a left mid = k"
        using "1.IH"(1)[OF True mid_def lt] "1.prems"(1,3) by blast
      then show ?thesis using True lt
        by (subst binary_search.simps) (simp add: mid_def Let_def)
    next
      case ge: False
      have "mid < k"
      proof (rule ccontr)
        assume "\<not> mid < k"
        then have "k \<le> mid \<and> mid < right" using mid by simp
        with "1.prems"(4) ge show False by blast
      qed
      moreover have "\<forall>i. mid + 1 \<le> i \<and> i < k \<longrightarrow> \<not> cmp pivot (a ! i) < 0"
        using "1.prems"(3) mid by auto
      ultimately have "binary_search cmp pivot a (mid + 1) right = k"
        using "1.IH"(2)[OF True mid_def ge] "1.prems"(2,4) by simp
      then show ?thesis using True ge
        by (subst binary_search.simps) (simp add: mid_def Let_def)
    qed
  qed
qed

lemma binary_search_partition:
  assumes "\<forall>x \<in> set xs. \<not> cmp p x < 0" and "\<forall>y \<in> set ys. cmp p y < 0"
  shows "binary_search cmp p (xs @ ys) 0 (length (xs @ ys)) = length xs"
proof (rule binary_search_correct)
  show "\<forall>i. 0 \<le> i \<and> i < length xs \<longrightarrow> \<not> cmp p ((xs @ ys) ! i) < 0"
    using assms(1) by (auto simp: nth_append)
  show "\<forall>i. length xs \<le> i \<and> i < length (xs @ ys) \<longrightarrow> cmp p ((xs @ ys) ! i) < 0"
    using assms(2) by (auto simp: nth_append)
qed simp_all


lemma partition_by_pivot:
  fixes cmp :: "'a comparefn"
  assumes mono: "\<And>x y. cmp p x < 0 \<Longrightarrow> 0 \<le> cmp y x \<Longrightarrow> cmp p y < 0"
    and "sorted_wrt (\<lambda>a b. 0 \<le> cmp b a) pre"
  shows "\<exists>xs ys. pre = xs @ ys \<and> (\<forall>x \<in> set xs. \<not> cmp p x < 0) \<and> (\<forall>y \<in> set ys. cmp p y < 0)"
  using assms(2)
proof (induction pre)
  case Nil
  then show ?case by simp
next
  case (Cons a pre)
  show ?case
  proof (cases "cmp p a < 0")
    case True
    have "\<forall>y \<in> set (a # pre). cmp p y < 0"
      using True Cons.prems mono by auto
    then have "a # pre = [] @ (a # pre) \<and> (\<forall>x \<in> set []. \<not> cmp p x < 0) \<and> (\<forall>y \<in> set (a # pre). cmp p y < 0)"
      by simp
    then show ?thesis by blast
  next
    case False
    from Cons obtain xs ys where "pre = xs @ ys" "\<forall>x \<in> set xs. \<not> cmp p x < 0" "\<forall>y \<in> set ys. cmp p y < 0"
      by auto
    then have "a # pre = (a # xs) @ ys \<and> (\<forall>x \<in> set (a # xs). \<not> cmp p x < 0) \<and> (\<forall>y \<in> set ys. cmp p y < 0)"
      using False by simp
    then show ?thesis by blast
  qed
qed

lemma insertion_point:
  fixes cmp :: "'a comparefn"
  assumes mono: "\<And>x y. cmp p x < 0 \<Longrightarrow> 0 \<le> cmp y x \<Longrightarrow> cmp p y < 0"
    and "sorted_wrt (\<lambda>a b. 0 \<le> cmp b a) pre"
  obtains xs ys where "pre = xs @ ys" and "\<forall>x \<in> set xs. 0 \<le> cmp p x"
    and "\<forall>y \<in> set ys. cmp p y < 0"
    and "binary_search cmp p pre 0 (length pre) = length xs"
proof -
  have "\<exists>xs ys. pre = xs @ ys \<and> (\<forall>x \<in> set xs. \<not> cmp p x < 0) \<and> (\<forall>y \<in> set ys. cmp p y < 0)"
  proof (rule partition_by_pivot)
    show "\<And>x y. cmp p x < 0 \<Longrightarrow> 0 \<le> cmp y x \<Longrightarrow> cmp p y < 0" by (rule mono)
    show "sorted_wrt (\<lambda>a b. 0 \<le> cmp b a) pre" by (rule assms(2))
  qed
  then obtain xs ys where s1: "pre = xs @ ys" and s2: "\<forall>x \<in> set xs. \<not> cmp p x < 0"
    and s3: "\<forall>y \<in> set ys. cmp p y < 0"
    by blast
  have "binary_search cmp p (xs @ ys) 0 (length (xs @ ys)) = length xs"
    using s2 s3 by (rule binary_search_partition)
  then have pos: "binary_search cmp p pre 0 (length pre) = length xs"
    by (simp only: s1)
  have s2': "\<forall>x \<in> set xs. 0 \<le> cmp p x"
  proof
    fix x assume "x \<in> set xs"
    with s2 have "\<not> cmp p x < 0" by blast
    then show "0 \<le> cmp p x" by simp
  qed
  show ?thesis using s1 s2' s3 pos by (rule that)
qed

lemma binaryInsertionSort_sorted:
  assumes asym: "\<And>a b. cmp a b < 0 \<Longrightarrow> 0 \<le> cmp b a"
    and mono: "\<And>p x y. cmp p x < 0 \<Longrightarrow> 0 \<le> cmp y x \<Longrightarrow> cmp p y < 0"
    and "sorted_wrt (\<lambda>a b. 0 \<le> cmp b a) pre"
  shows "sorted_wrt (\<lambda>a b. 0 \<le> cmp b a) (binaryInsertionSort cmp pre rest)"
  using assms(3)
proof (induction rest arbitrary: pre)
  case Nil
  then show ?case by simp
next
  case (Cons p rest)
  obtain xs ys where s: "pre = xs @ ys" "\<forall>x \<in> set xs. 0 \<le> cmp p x" "\<forall>y \<in> set ys. cmp p y < 0"
    and pos: "binary_search cmp p pre 0 (length pre) = length xs"
    by (rule insertion_point[of cmp p pre, OF mono Cons.prems])
  have "binaryInsertionSort cmp pre (p # rest) =
      binaryInsertionSort cmp (take (length xs) pre @ p # drop (length xs) pre) rest"
    by (simp add: pos Let_def)
  then have ins: "binaryInsertionSort cmp pre (p # rest) = binaryInsertionSort cmp (xs @ p # ys) rest"
    by (simp add: s(1))
  have "sorted_wrt (\<lambda>a b. 0 \<le> cmp b a) (xs @ p # ys)"
    using Cons.prems s(1,2,3) asym by (auto simp: sorted_wrt_append)
  then have "sorted_wrt (\<lambda>a b. 0 \<le> cmp b a) (binaryInsertionSort cmp (xs @ p # ys) rest)"
    by (rule Cons.IH)
  then show ?case by (simp only: ins)
qed

lemma binaryInsertionSort_filter:
  assumes mono: "\<And>p x y. cmp p x < 0 \<Longrightarrow> 0 \<le> cmp y x \<Longrightarrow> cmp p y < 0"
    and asym: "\<And>a b. cmp a b < 0 \<Longrightarrow> 0 \<le> cmp b a"
    and same: "\<And>a b. S a \<Longrightarrow> S b \<Longrightarrow> 0 \<le> cmp a b"
    and "sorted_wrt (\<lambda>a b. 0 \<le> cmp b a) pre"
  shows "filter S (binaryInsertionSort cmp pre rest) = filter S pre @ filter S rest"
  using assms(4)
proof (induction rest arbitrary: pre)
  case Nil
  then show ?case by simp
next
  case (Cons p rest)
  obtain xs ys where s: "pre = xs @ ys" "\<forall>x \<in> set xs. 0 \<le> cmp p x" "\<forall>y \<in> set ys. cmp p y < 0"
    and pos: "binary_search cmp p pre 0 (length pre) = length xs"
    by (rule insertion_point[of cmp p pre, OF mono Cons.prems])
  have "binaryInsertionSort cmp pre (p # rest) =
      binaryInsertionSort cmp (take (length xs) pre @ p # drop (length xs) pre) rest"
    by (simp add: pos Let_def)
  then have ins: "binaryInsertionSort cmp pre (p # rest) = binaryInsertionSort cmp (xs @ p # ys) rest"
    by (simp add: s(1))
  have sorted: "sorted_wrt (\<lambda>a b. 0 \<le> cmp b a) (xs @ p # ys)"
    using Cons.prems s(1,2,3) asym by (auto simp: sorted_wrt_append)
  have "filter S (xs @ p # ys) = filter S pre @ filter S [p]"
  proof (cases "S p")
    case True
    have "\<forall>y \<in> set ys. \<not> S y"
    proof
      fix y assume "y \<in> set ys"
      then have "cmp p y < 0" using s(3) by blast
      then show "\<not> S y" using same[OF True, of y] by auto
    qed
    then have "filter S ys = []" by (simp add: filter_empty_conv)
    then show ?thesis using s(1) by simp
  next
    case False
    then show ?thesis using s(1) by simp
  qed
  moreover have "filter S (binaryInsertionSort cmp (xs @ p # ys) rest) = filter S (xs @ p # ys) @ filter S rest"
    using sorted by (rule Cons.IH)
  ultimately show ?case by (simp only: ins) simp
qed

lemma binaryInsertionSort_mset:
  "mset (binaryInsertionSort cmp pre rest) = mset pre + mset rest"
proof (induction rest arbitrary: pre)
  case Nil
  then show ?case by simp
next
  case (Cons p rest)
  define k where "k = binary_search cmp p pre 0 (length pre)"
  have "mset (take k pre) + mset (drop k pre) = mset pre"
    by (metis append_take_drop_id mset_append)
  then have step: "mset (take k pre @ p # drop k pre) = mset pre + {#p#}"
    by simp
  have "binaryInsertionSort cmp pre (p # rest) = binaryInsertionSort cmp (take k pre @ p # drop k pre) rest"
    by (simp add: k_def Let_def)
  then have "mset (binaryInsertionSort cmp pre (p # rest)) = mset (take k pre @ p # drop k pre) + mset rest"
    by (simp only: Cons.IH)
  also have "\<dots> = mset pre + mset (p # rest)"
    by (simp only: step) simp
  finally show ?case .
qed

lemma run_length_le: "run_length cmp desc prev xs \<le> length xs"
  by (induction xs arbitrary: prev) (auto simp: Let_def)

lemma ascending_run_sorted:
  assumes trans: "\<And>a b c. 0 \<le> cmp b a \<Longrightarrow> 0 \<le> cmp c b \<Longrightarrow> 0 \<le> cmp c a"
  shows "sorted_wrt (\<lambda>a b. 0 \<le> cmp b a) (prev # take (run_length cmp False prev xs) xs)"
proof (induction xs arbitrary: prev)
  case Nil
  then show ?case by simp
next
  case (Cons x xs)
  show ?case
  proof (cases "cmp x prev < 0")
    case True
    then show ?thesis by simp
  next
    case False
    have IH: "sorted_wrt (\<lambda>a b. 0 \<le> cmp b a) (x # take (run_length cmp False x xs) xs)"
      by (rule Cons.IH)
    have "\<forall>y \<in> set (take (run_length cmp False x xs) xs). 0 \<le> cmp y prev"
      using IH False trans[where a = prev and b = x] by auto
    then show ?thesis using IH False by (simp add: Let_def)
  qed
qed

lemma descending_run_sorted:
  assumes trans: "\<And>a b c. cmp b a < 0 \<Longrightarrow> cmp c b < 0 \<Longrightarrow> cmp c a < 0"
  shows "sorted_wrt (\<lambda>a b. cmp b a < 0) (prev # take (run_length cmp True prev xs) xs)"
proof (induction xs arbitrary: prev)
  case Nil
  then show ?case by simp
next
  case (Cons x xs)
  show ?case
  proof (cases "cmp x prev < 0")
    case False
    then show ?thesis by simp
  next
    case True
    have IH: "sorted_wrt (\<lambda>a b. cmp b a < 0) (x # take (run_length cmp True x xs) xs)"
      by (rule Cons.IH)
    have "\<forall>y \<in> set (take (run_length cmp True x xs) xs). cmp y prev < 0"
      using IH True trans[where a = prev and b = x] by auto
    then show ?thesis using IH True by (simp add: Let_def)
  qed
qed

lemma filter_rev_descending:
  fixes cmp :: "'a comparefn"
  assumes same: "\<And>a b. S a \<Longrightarrow> S b \<Longrightarrow> 0 \<le> cmp a b"
    and "sorted_wrt (\<lambda>a b. cmp b a < 0) xs"
  shows "filter S (rev xs) = filter S xs"
  using assms(2)
proof (induction xs)
  case Nil
  then show ?case by simp
next
  case (Cons a xs)
  then have IH: "filter S (rev xs) = filter S xs" by simp
  show ?case
  proof (cases "S a")
    case True
    have "\<forall>y \<in> set xs. \<not> S y"
    proof
      fix y assume "y \<in> set xs"
      then have "cmp y a < 0" using Cons.prems by auto
      then show "\<not> S y" using same[of y a] True by auto
    qed
    then have "filter S xs = []" by (simp add: filter_empty_conv)
    then show ?thesis using IH by simp
  next
    case False
    then show ?thesis using IH by simp
  qed
qed

lemma countAndMakeRun_mset:
  "countAndMakeRun cmp xs = (run, rest) \<Longrightarrow> mset run + mset rest = mset xs"
proof (induction cmp xs rule: countAndMakeRun.induct)
  case (3 cmp x0 x1 xs)
  have "mset (take n xs) + mset (drop n xs) = mset xs" for n
    by (metis append_take_drop_id mset_append)
  then show ?case using 3 by (cases "cmp x1 x0 < 0") (auto simp: Let_def)
qed auto

lemma countAndMakeRun_sorted:
  assumes asym: "\<And>a b. cmp a b < 0 \<Longrightarrow> 0 \<le> cmp b a"
    and trans: "\<And>a b c. 0 \<le> cmp b a \<Longrightarrow> 0 \<le> cmp c b \<Longrightarrow> 0 \<le> cmp c a"
    and strict: "\<And>a b c. cmp b a < 0 \<Longrightarrow> cmp c b < 0 \<Longrightarrow> cmp c a < 0"
    and "countAndMakeRun cmp xs = (run, rest)"
  shows "sorted_wrt (\<lambda>a b. 0 \<le> cmp b a) run"
proof (cases "(cmp, xs)" rule: countAndMakeRun.cases)
  case (1 c)
  then show ?thesis using assms(4) by simp
next
  case (2 c x)
  then show ?thesis using assms(4) by auto
next
  case (3 c x0 x1 ys)
  then have xs: "xs = x0 # x1 # ys" and c: "c = cmp" by simp_all
  show ?thesis
  proof (cases "cmp x1 x0 < 0")
    case True
    have "run_length cmp True x0 (x1 # ys) = Suc (run_length cmp True x1 ys)"
      using True by simp
    then have "sorted_wrt (\<lambda>a b. cmp b a < 0) (x0 # x1 # take (run_length cmp True x1 ys) ys)"
      using descending_run_sorted[of cmp x0 "x1 # ys", OF strict] by simp
    then have "sorted_wrt (\<lambda>a b. 0 \<le> cmp a b) (x0 # x1 # take (run_length cmp True x1 ys) ys)"
      by (rule sorted_wrt_mono_rel[rotated]) (use asym in auto)
    then have "sorted_wrt (\<lambda>a b. 0 \<le> cmp b a) (rev (x0 # x1 # take (run_length cmp True x1 ys) ys))"
      by (simp only: sorted_wrt_rev)
    moreover have "run = rev (x0 # x1 # take (run_length cmp True x1 ys) ys)"
      using assms(4) xs True by (simp add: Let_def)
    ultimately show ?thesis by simp
  next
    case False
    have "run_length cmp False x0 (x1 # ys) = Suc (run_length cmp False x1 ys)"
      using False by simp
    then have "sorted_wrt (\<lambda>a b. 0 \<le> cmp b a) (x0 # x1 # take (run_length cmp False x1 ys) ys)"
      using ascending_run_sorted[of cmp x0 "x1 # ys", OF trans] by simp
    moreover have "run = x0 # x1 # take (run_length cmp False x1 ys) ys"
      using assms(4) xs False by (simp add: Let_def)
    ultimately show ?thesis by simp
  qed
qed

lemma countAndMakeRun_filter:
  assumes same: "\<And>a b. S a \<Longrightarrow> S b \<Longrightarrow> 0 \<le> cmp a b"
    and strict: "\<And>a b c. cmp b a < 0 \<Longrightarrow> cmp c b < 0 \<Longrightarrow> cmp c a < 0"
    and "countAndMakeRun cmp xs = (run, rest)"
  shows "filter S run @ filter S rest = filter S xs"
proof (cases "(cmp, xs)" rule: countAndMakeRun.cases)
  case (1 c)
  then show ?thesis using assms(3) by simp
next
  case (2 c x)
  then show ?thesis using assms(3) by auto
next
  case (3 c x0 x1 ys)
  then have xs: "xs = x0 # x1 # ys" and c: "c = cmp" by simp_all
  define n where "n = run_length cmp (cmp x1 x0 < 0) x1 ys"
  have split: "xs = (x0 # x1 # take n ys) @ drop n ys" using xs by simp
  have rest: "rest = drop n ys" using assms(3) xs by (simp add: Let_def n_def)
  have "filter S run = filter S (x0 # x1 # take n ys)"
  proof (cases "cmp x1 x0 < 0")
    case True
    have "run_length cmp True x0 (x1 # ys) = Suc (run_length cmp True x1 ys)"
      using True by simp
    then have "sorted_wrt (\<lambda>a b. cmp b a < 0) (x0 # x1 # take n ys)"
      using descending_run_sorted[of cmp x0 "x1 # ys", OF strict] True by (simp add: n_def)
    then have "filter S (rev (x0 # x1 # take n ys)) = filter S (x0 # x1 # take n ys)"
      by (rule filter_rev_descending[rotated]) (erule same, assumption)
    moreover have "run = rev (x0 # x1 # take n ys)"
      using assms(3) xs True by (simp add: Let_def n_def)
    ultimately show ?thesis by simp
  next
    case False
    then have "run = x0 # x1 # take n ys"
      using assms(3) xs by (simp add: Let_def n_def)
    then show ?thesis by simp
  qed
  then have "filter S run @ filter S rest = filter S ((x0 # x1 # take n ys) @ drop n ys)"
    using rest by (simp only: filter_append)
  then show ?thesis using split by simp
qed

lemma Array_sort_mset: "mset (Array_sort cmp xs) = mset xs"
proof (cases "length xs < 2")
  case True
  then show ?thesis by (simp add: Array_sort_def)
next
  case False
  obtain run rest where r: "countAndMakeRun cmp xs = (run, rest)" by (cases "countAndMakeRun cmp xs")
  then have "mset run + mset rest = mset xs" by (rule countAndMakeRun_mset)
  then show ?thesis using False r by (simp add: Array_sort_def binaryInsertionSort_mset)
qed

lemma Array_sort_sorted:
  assumes asym: "\<And>a b. cmp a b < 0 \<Longrightarrow> 0 \<le> cmp b a"
    and mono: "\<And>p x y. cmp p x < 0 \<Longrightarrow> 0 \<le> cmp y x \<Longrightarrow> cmp p y < 0"
    and trans: "\<And>a b c. 0 \<le> cmp b a \<Longrightarrow> 0 \<le> cmp c b \<Longrightarrow> 0 \<le> cmp c a"
    and strict: "\<And>a b c. cmp b a < 0 \<Longrightarrow> cmp c b < 0 \<Longrightarrow> cmp c a < 0"
  shows "sorted_wrt (\<lambda>a b. 0 \<le> cmp b a) (Array_sort cmp xs)"
proof (cases "length xs < 2")
  case True
  then have "xs = [] \<or> (\<exists>x. xs = [x])" by (cases xs) auto
  then show ?thesis by (auto simp: Array_sort_def)
next
  case False
  obtain run rest where r: "countAndMakeRun cmp xs = (run, rest)" by (cases "countAndMakeRun cmp xs")
  have "sorted_wrt (\<lambda>a b. 0 \<le> cmp b a) run"
    using countAndMakeRun_sorted[OF asym trans strict r] .
  then have "sorted_wrt (\<lambda>a b. 0 \<le> cmp b a) (binaryInsertionSort cmp run rest)"
    by (rule binaryInsertionSort_sorted[rotated 2]) (erule asym, erule mono, assumption)
  then show ?thesis using False r by (simp add: Array_sort_def)
qed

lemma Array_sort_filter:
  fixes cmp :: "'a comparefn"
  assumes asym: "\<And>a b. cmp a b < 0 \<Longrightarrow> 0 \<le> cmp b a"
    and mono: "\<And>p x y. cmp p x < 0 \<Longrightarrow> 0 \<le> cmp y x \<Longrightarrow> cmp p y < 0"
    and trans: "\<And>a b c. 0 \<le> cmp b a \<Longrightarrow> 0 \<le> cmp c b \<Longrightarrow> 0 \<le> cmp c a"
    and strict: "\<And>a b c. cmp b a < 0 \<Longrightarrow> cmp c b < 0 \<Longrightarrow> cmp c a < 0"
    and same: "\<And>a b. S a \<Longrightarrow> S b \<Longrightarrow> 0 \<le> cmp a b"
  shows "filter S (Array_sort cmp xs) = filter S xs"
proof (cases "length xs < 2")
  case True
  then show ?thesis by (simp add: Array_sort_def)
next
  case False
  obtain run rest where r: "countAndMakeRun cmp xs = (run, rest)" by (cases "countAndMakeRun cmp xs")
  have "sorted_wrt (\<lambda>a b. 0 \<le> cmp b a) run"
    using countAndMakeRun_sorted[OF asym trans strict r] .
  then have "filter S (binaryInsertionSort cmp run rest) = filter S run @ filter S rest"
    by (rule binaryInsertionSort_filter[rotated 3]) (erule mono, assumption, erule asym, erule same, assumption)
  also have "\<dots> = filter S xs"
    using countAndMakeRun_filter[OF same strict r] .
  finally show ?thesis using False r by (simp add: Array_sort_def)
qed

lemma split_sorted:
  assumes "sorted_wrt R ys" and "\<And>a b. R a b \<Longrightarrow> \<not> V a \<Longrightarrow> \<not> V b"
  shows "ys = filter V ys @ filter (\<lambda>x. \<not> V x) ys"
  using assms(1)
proof (induction ys)
  case Nil
  then show ?case by simp
next
  case (Cons a ys)
  then have IH: "ys = filter V ys @ filter (\<lambda>x. \<not> V x) ys" by simp
  show ?case
  proof (cases "V a")
    case True
    then show ?thesis using IH by simp
  next
    case False
    have "\<forall>b \<in> set ys. \<not> V b" using Cons.prems assms(2) False by auto
    then have "filter V ys = []" "filter (\<lambda>x. \<not> V x) ys = ys"
      by (simp_all add: filter_empty_conv filter_id_conv)
    then show ?thesis using False by simp
  qed
qed

lemma compareByDate_asym: "compareByDate e a b < 0 \<Longrightarrow> 0 \<le> compareByDate e b a"
  by (auto simp: compareByDate_def split: option.splits)

lemma compareByDate_mono:
  "compareByDate e p x < 0 \<Longrightarrow> 0 \<le> compareByDate e y x \<Longrightarrow> compareByDate e p y < 0"
  by (auto simp: compareByDate_def split: option.splits)

lemma compareByDate_trans:
  "0 \<le> compareByDate e b a \<Longrightarrow> 0 \<le> compareByDate e c b \<Longrightarrow> 0 \<le> compareByDate e c a"
  by (auto simp: compareByDate_def split: option.splits)

lemma compareByDate_strict:
  "compareByDate e b a < 0 \<Longrightarrow> compareByDate e c b < 0 \<Longrightarrow> compareByDate e c a < 0"
  by (auto simp: compareByDate_def split: option.splits)

lemma compareByDate_same:
  "Date_getTime e (publicationDate a) = v \<Longrightarrow> Date_getTime e (publicationDate b) = v \<Longrightarrow>
   0 \<le> compareByDate e a b"
  by (auto simp: compareByDate_def split: option.splits)

lemma compareByRelevance_asym: "compareByRelevance k a b < 0 \<Longrightarrow> 0 \<le> compareByRelevance k b a"
  by (auto simp: compareByRelevance_def Let_def split: if_splits)

lemma compareByRelevance_mono:
  "compareByRelevance k p x < 0 \<Longrightarrow> 0 \<le> compareByRelevance k y x \<Longrightarrow> compareByRelevance k p y < 0"
  by (auto simp: compareByRelevance_def Let_def split: if_splits)

lemma compareByRelevance_trans:
  "0 \<le> compareByRelevance k b a \<Longrightarrow> 0 \<le> compareByRelevance k c b \<Longrightarrow> 0 \<le> compareByRelevance k c a"
  by (auto simp: compareByRelevance_def Let_def split: if_splits)

lemma compareByRelevance_strict:
  "compareByRelevance k b a < 0 \<Longrightarrow> compareByRelevance k c b < 0 \<Longrightarrow> compareByRelevance k c a < 0"
  by (auto simp: compareByRelevance_def Let_def split: if_splits)

lemma compareByRelevance_same:
  "hasKeywordInTitle k a = v \<Longrightarrow> hasKeywordInTitle k b = v \<Longrightarrow> 0 \<le> compareByRelevance k a b"
  by (auto simp: compareByRelevance_def Let_def split: if_splits)

lemma date_sorted: "sorted_wrt (\<lambda>a b. 0 \<le> compareByDate e b a) (Array_sort (compareByDate e) xs)"
  by (rule Array_sort_sorted)
    (erule compareByDate_asym, erule compareByDate_mono, assumption,
     erule compareByDate_trans, assumption, erule compareByDate_strict, assumption)

lemma date_stable:
  "filter (\<lambda>a. Date_getTime e (publicationDate a) = v) (Array_sort (compareByDate e) xs) =
   filter (\<lambda>a. Date_getTime e (publicationDate a) = v) xs"
  by (rule Array_sort_filter)
    (erule compareByDate_asym, erule compareByDate_mono, assumption,
     erule compareByDate_trans, assumption, erule compareByDate_strict, assumption,
     erule compareByDate_same, assumption)

lemma relevance_sorted:
  "sorted_wrt (\<lambda>a b. 0 \<le> compareByRelevance k b a) (Array_sort (compareByRelevance k) xs)"
  by (rule Array_sort_sorted)
    (erule compareByRelevance_asym, erule compareByRelevance_mono, assumption,
     erule compareByRelevance_trans, assumption, erule compareByRelevance_strict, assumption)

lemma relevance_stable:
  "filter (\<lambda>a. hasKeywordInTitle k a = v) (Array_sort (compareByRelevance k) xs) =
   filter (\<lambda>a. hasKeywordInTitle k a = v) xs"
  by (rule Array_sort_filter)
    (erule compareByRelevance_asym, erule compareByRelevance_mono, assumption,
     erule compareByRelevance_trans, assumption, erule compareByRelevance_strict, assumption,
     erule compareByRelevance_same, assumption)

section \<open>Reading a name before or outside its declaration\<close>

lemma resolve_dollar:
  "resolve (try_block_scope a f s) ''$'' =
     Inl (ReferenceError (''Cannot access '' @ [CHR 0x27] @ ''$'' @ [CHR 0x27] @ '' before initialization''))"
  by (simp add: try_block_scope_def)

lemma resolve_catch:
  "resolve (catch_block_scope a f s) ''title'' = Inl (ReferenceError ''title is not defined'')"
  "resolve (catch_block_scope a f s) ''author'' = Inl (ReferenceError ''author is not defined'')"
  "resolve (catch_block_scope a f s) ''publicationDate'' =
     Inl (ReferenceError ''publicationDate is not defined'')"
  "resolve (catch_block_scope a f s) ''source'' = Inl (ReferenceError ''source is not defined'')"
  "resolve (catch_block_scope a f s) ''articleBody'' =
     Inl (ReferenceError ''articleBody is not defined'')"
  by (simp_all add: catch_block_scope_def function_scope_def module_scope_def)

lemma scrapeArticleDetails_try_throws:
  "scrapeArticleDetails_try e a f s =
     Inl (ReferenceError (''Cannot access '' @ [CHR 0x27] @ ''$'' @ [CHR 0x27] @ '' before initialization''))"
  by (simp only: scrapeArticleDetails_try_def resolve_dollar sum.case)

lemma scrapeArticleDetails_catch_throws:
  "scrapeArticleDetails_catch a f s = Inl (ReferenceError ''title is not defined'')"
  by (simp add: scrapeArticleDetails_catch_def resolve_catch(1))

lemma scrapeArticleDetails_throws:
  "scrapeArticleDetails e a f s = Inl (ReferenceError ''title is not defined'')"
  by (simp only: scrapeArticleDetails_def scrapeArticleDetails_try_throws
      scrapeArticleDetails_catch_throws sum.case)

section \<open>Short arrays and the degraded records\<close>

lemma scrapeCandidates_degraded: "scrapeCandidates e siteName ls = map (degraded siteName) ls"
  by (induction ls) (simp_all add: scrapeArticleDetails_throws)

lemma Array_sort_short: "length xs < 2 \<Longrightarrow> Array_sort cmp xs = xs"
  by (simp add: Array_sort_def)

lemma sortArticles_short: "length xs < 2 \<Longrightarrow> sortArticles e keyword sortBy xs = xs"
  by (simp add: sortArticles_def Array_sort_short)

lemma set_sortArticles: "set (sortArticles e keyword sortBy xs) = set xs"
proof -
  have "set (Array_sort cmp xs) = set xs" for cmp :: "article comparefn"
    using Array_sort_mset[of cmp xs] by (metis set_mset_mset)
  then show ?thesis by (simp add: sortArticles_def)
qed

lemma set_filterArticles: "set (filterArticles keyword xs) \<subseteq> set xs"
  by (auto simp: filterArticles_def)

section \<open>Link discovery: what the set of found links holds\<close>

lemma visit_link_result:
  assumes "visit_link e b found el = Inr found'"
  shows "found' = found \<or> (length found < 10 \<and> (\<exists>l. kept_link e b el l \<and> l \<notin> set found \<and> found' = found @ [l]))"
  using assms
  by (auto simp: visit_link_def kept_link_def Set_add_def Let_def
      split: if_splits option.splits)

lemma visit_link_complete:
  assumes "visit_link e b found el = Inr found'" and "length found' < 10" and "kept_link e b el l"
  shows "l \<in> set found'"
proof -
  from assms(3) obtain h where h: "cheerio_attr [el] ''href'' = Some h" "h \<noteq> []"
    "10 < length (trim (cheerio_text [el]))" "\<not> str_includes h ''tag''" "\<not> str_includes h ''mailto''"
    "snd l = trim (cheerio_text [el])"
    "if startsWith h ''http'' then fst l = h else \<exists>p. new_URL e h (Some b) = Some p \<and> fst l = href p"
    unfolding kept_link_def by blast
  from visit_link_result[OF assms(1)] assms(2) have small: "length found < 10" by auto
  show ?thesis
  proof (cases "startsWith h ''http''")
    case True
    with h(7) have "l = (h, trim (cheerio_text [el]))" using h(6) by (cases l) simp
    moreover have "found' = Set_add found (h, trim (cheerio_text [el]))"
      using assms(1) small h True by (simp add: visit_link_def Let_def)
    ultimately show ?thesis by (simp add: Set_add_def)
  next
    case False
    with h(7) obtain p where p: "new_URL e h (Some b) = Some p" "fst l = href p" by auto
    then have "l = (href p, trim (cheerio_text [el]))" using h(6) by (cases l) simp
    moreover have "found' = Set_add found (href p, trim (cheerio_text [el]))"
      using assms(1) small h False p by (simp add: visit_link_def Let_def)
    ultimately show ?thesis by (simp add: Set_add_def)
  qed
qed

lemma visit_links_invariant:
  assumes "visit_links e b found els = Inr found'"
  shows "(length found \<le> 10 \<longrightarrow> length found' \<le> 10) \<and>
         (distinct found \<longrightarrow> distinct found') \<and>
         set found \<subseteq> set found' \<and> length found \<le> length found' \<and>
         (\<forall>l \<in> set found'. l \<in> set found \<or> (\<exists>el \<in> set els. kept_link e b el l)) \<and>
         (length found' < 10 \<longrightarrow> (\<forall>el \<in> set els. \<forall>l. kept_link e b el l \<longrightarrow> l \<in> set found'))"
  using assms
proof (induction els arbitrary: found)
  case Nil
  then show ?case by simp
next
  case (Cons el els)
  from Cons.prems obtain mid where mid: "visit_link e b found el = Inr mid"
    and rest: "visit_links e b mid els = Inr found'"
    by (auto split: sum.splits)
  note IH = Cons.IH[OF rest]
  note step = visit_link_result[OF mid]
  have 1: "length found \<le> 10 \<longrightarrow> length found' \<le> 10" using IH step by auto
  have 2: "distinct found \<longrightarrow> distinct found'" using IH step by auto
  have 3: "set found \<subseteq> set found'" using IH step by auto
  have 4: "length found \<le> length found'" using IH step by auto
  have 5: "\<forall>l \<in> set found'. l \<in> set found \<or> (\<exists>el' \<in> set (el # els). kept_link e b el' l)"
  proof
    fix l assume "l \<in> set found'"
    with IH have "l \<in> set mid \<or> (\<exists>el' \<in> set els. kept_link e b el' l)" by blast
    then show "l \<in> set found \<or> (\<exists>el' \<in> set (el # els). kept_link e b el' l)"
      using step by auto
  qed
  have 6: "length found' < 10 \<longrightarrow> (\<forall>el' \<in> set (el # els). \<forall>l. kept_link e b el' l \<longrightarrow> l \<in> set found')"
  proof (intro impI ballI allI)
    fix el' l assume small: "length found' < 10" and el': "el' \<in> set (el # els)"
      and k: "kept_link e b el' l"
    show "l \<in> set found'"
    proof (cases "el' = el")
      case True
      have "length mid < 10" using IH small by auto
      then have "l \<in> set mid" using visit_link_complete[OF mid _ k[unfolded True]] by blast
      then show ?thesis using IH by blast
    next
      case False
      then have "el' \<in> set els" using el' by simp
      then show ?thesis using IH small k by blast
    qed
  qed
  show ?case by (intro conjI 1 2 3 4 5 6)
qed

section \<open>The wall clock is read by the error record only\<close>

lemma bbc_articles_clock [simp]:
  "bbc_articles (e\<lparr>Date_now_toISOString := c\<rparr>) ls = bbc_articles e ls"
  by (induction ls) (simp_all split: sum.splits)

lemma verge_articles_clock [simp]:
  "verge_articles (e\<lparr>Date_now_toISOString := c\<rparr>) ls = verge_articles e ls"
  by (induction ls) (simp_all split: sum.splits)

lemma cnn_articles_clock [simp]:
  "cnn_articles (e\<lparr>Date_now_toISOString := c\<rparr>) ls = cnn_articles e ls"
  by (induction ls) (simp_all split: sum.splits)

lemma hn_row_clock [simp]:
  "hn_row (e\<lparr>Date_now_toISOString := c\<rparr>) el = hn_row e el"
  by (simp add: hn_row_def Let_def cong: if_cong)

lemma hn_rows_clock [simp]:
  "hn_rows (e\<lparr>Date_now_toISOString := c\<rparr>) els = hn_rows e els"
  by (induction els) (simp_all cong: sum.case_cong)

lemma scrapeDefaultSites_clock:
  "scrapeDefaultSites (e\<lparr>Date_now_toISOString := c\<rparr>) = scrapeDefaultSites e"
  by (simp add: scrapeDefaultSites_def scrapeBBC_def scrapeVerge_def scrapeCNN_def scrapeHackerNews_def
      cong: sum.case_cong)

lemma visit_link_clock [simp]:
  "visit_link (e\<lparr>Date_now_toISOString := c\<rparr>) b found el = visit_link e b found el"
  by (simp add: visit_link_def Let_def cong: if_cong option.case_cong)

lemma visit_links_clock [simp]:
  "visit_links (e\<lparr>Date_now_toISOString := c\<rparr>) b found els = visit_links e b found els"
  by (induction els arbitrary: found) (simp_all cong: sum.case_cong)

lemma scrapeDynamicSite_try_clock:
  "scrapeDynamicSite_try (e\<lparr>Date_now_toISOString := c\<rparr>) u = scrapeDynamicSite_try e u"
  by (simp add: scrapeDynamicSite_try_def isLikelyArticleUrl_def discoverLinks_def collectLinks_def
      scrapeCandidates_degraded scrapeArticleDetails_throws
      cong: sum.case_cong option.case_cong bool.case_cong)

lemma sortArticles_clock:
  "sortArticles (e\<lparr>Date_now_toISOString := c\<rparr>) keyword sortBy xs = sortArticles e keyword sortBy xs"
proof -
  have "compareByDate (e\<lparr>Date_now_toISOString := c\<rparr>) = compareByDate e"
    by (intro ext) (simp add: compareByDate_def cong: option.case_cong)
  then show ?thesis by (simp add: sortArticles_def)
qed

lemma bbc_articles_no_error: "\<forall>r \<in> set (bbc_articles e ls). error r = None"
  by (induction ls) (simp_all split: sum.splits)

lemma verge_articles_no_error: "\<forall>r \<in> set (verge_articles e ls). error r = None"
  by (induction ls) (simp_all split: sum.splits)

lemma cnn_articles_no_error: "\<forall>r \<in> set (cnn_articles e ls). error r = None"
  by (induction ls) (simp_all split: sum.splits)

lemma hn_rows_no_error: "hn_rows e els = Inr news \<Longrightarrow> \<forall>r \<in> set news. error r = None"
proof (induction els arbitrary: news)
  case Nil
  then show ?case by simp
next
  case (Cons el els)
  then show ?case
    by (auto simp: hn_row_def Let_def split: sum.splits if_splits option.splits)
qed

lemma scrapeDefaultSites_no_error:
  assumes "scrapeDefaultSites e = Inr xs"
  shows "\<forall>r \<in> set xs. error r = None"
proof -
  from assms obtain bbc verge cnn hacker where
    p: "scrapeBBC e = Inr bbc" "scrapeVerge e = Inr verge" "scrapeCNN e = Inr cnn"
      "scrapeHackerNews e = Inr hacker" and xs: "xs = bbc @ verge @ cnn @ hacker"
    by (cases "scrapeBBC e"; cases "scrapeVerge e"; cases "scrapeCNN e"; cases "scrapeHackerNews e")
      (auto simp: scrapeDefaultSites_def)
  have "\<forall>r \<in> set bbc. error r = None"
    using p(1) bbc_articles_no_error by (auto simp: scrapeBBC_def split: sum.splits)
  moreover have "\<forall>r \<in> set verge. error r = None"
    using p(2) verge_articles_no_error by (auto simp: scrapeVerge_def split: sum.splits)
  moreover have "\<forall>r \<in> set cnn. error r = None"
    using p(3) cnn_articles_no_error by (auto simp: scrapeCNN_def split: sum.splits)
  moreover have "\<forall>r \<in> set hacker. error r = None"
  proof -
    from p(4) obtain doc news where "hn_rows e (doc ''.athing'') = Inr news" "hacker = take 5 news"
      by (auto simp: scrapeHackerNews_def split: sum.splits)
    then show ?thesis using hn_rows_no_error[of e "doc ''.athing''" news]
      by (auto dest: in_set_takeD)
  qed
  ultimately show ?thesis using xs by auto
qed

lemma scrapeDynamicSite_try_no_error:
  assumes "scrapeDynamicSite_try e u = Inr xs"
  shows "\<forall>r \<in> set xs. error r = None"
  using assms
  by (auto simp: scrapeDynamicSite_try_def scrapeCandidates_degraded scrapeArticleDetails_throws
      degraded_def Let_def split: option.splits sum.splits bool.splits)

lemma restamp_unmarked:
  assumes "\<forall>r \<in> set xs. error r = None"
  shows "map (\<lambda>r. if error r = None then r else r\<lparr>publicationDate := c\<rparr>)
           (sortArticles e keyword sortBy (filterArticles keyword xs)) =
         sortArticles e keyword sortBy (filterArticles keyword xs)"
proof (rule map_idI)
  fix r assume "r \<in> set (sortArticles e keyword sortBy (filterArticles keyword xs))"
  then have "r \<in> set xs" using set_filterArticles[of keyword xs] by (auto simp: set_sortArticles)
  with assms show "(if error r = None then r else r\<lparr>publicationDate := c\<rparr>) = r" by simp
qed

section \<open>A failed article fetch leaves the other articles in place\<close>

lemma bbc_articles_append: "bbc_articles e (xs @ ys) = bbc_articles e xs @ bbc_articles e ys"
  by (induction xs) (simp_all split: sum.splits)

lemma verge_articles_append: "verge_articles e (xs @ ys) = verge_articles e xs @ verge_articles e ys"
  by (induction xs) (simp_all split: sum.splits)

lemma cnn_articles_append: "cnn_articles e (xs @ ys) = cnn_articles e xs @ cnn_articles e ys"
  by (induction xs) (simp_all split: sum.splits)

lemma bbc_articles_links:
  "map link (bbc_articles e ls) = map Some (filter (\<lambda>l. \<not> isl (axios_get e l None)) ls)"
  by (induction ls) (simp_all split: sum.splits)

lemma verge_articles_links:
  "map link (verge_articles e ls) = map Some (filter (\<lambda>l. \<not> isl (axios_get e l None)) ls)"
  by (induction ls) (simp_all split: sum.splits)

lemma cnn_articles_links:
  "map link (cnn_articles e ls) = map Some (filter (\<lambda>l. \<not> isl (axios_get e l None)) ls)"
  by (induction ls) (simp_all split: sum.splits)

section \<open>The claims\<close>

text \<open>
  C1. The claim: every record \<^verbatim>\<open>scrapeNews\<close> returns has a non-empty \<^verbatim>\<open>title\<close>, \<^verbatim>\<open>link\<close>,
  \<^verbatim>\<open>author\<close>, \<^verbatim>\<open>publicationDate\<close> and \<^verbatim>\<open>source\<close>, the Hacker News records included.
  The Hacker News adapter stores \<^verbatim>\<open>.text()\<close> and \<^verbatim>\<open>.attr("href")\<close> of the title anchor
  as they come, where the three other adapters substitute \<^verbatim>\<open>"No title"\<close> and skip a row
  without a link. On a listing page with a row that has no title anchor, the call with
  no target URL returns a record whose title is empty and whose link is undefined.
\<close>

theorem hacker_news_row_without_title:
  "scrapeNews mock [] [] ''default'' =
     Inr [\<lparr>title = ''World report'', link = Some ''https://www.bbc.com/news/world-1'',
           author = ''BBC News'', publicationDate = ''2024-01-01'', source = ''BBC News'',
           content = None, error = None\<rparr>,
          \<lparr>title = ''Show HN: a thing'', link = Some ''https://blog.example.com/post'',
           author = ''alice'', publicationDate = ''2 hours ago'', source = ''blog.example.com'',
           content = None, error = None\<rparr>,
          \<lparr>title = [], link = None, author = ''alice'', publicationDate = ''2 hours ago'',
           source = ''Unknown'', content = None, error = None\<rparr>]"
  by code_simp

text \<open>
  C2. For every input, \<^verbatim>\<open>scrapeArticleDetails\<close> raises an error and never returns a record.
  Its \<^verbatim>\<open>try\<close> block reads \<^verbatim>\<open>$\<close> before the declaration of \<^verbatim>\<open>$\<close> in the same block is
  evaluated; its \<^verbatim>\<open>catch\<close> block reads \<^verbatim>\<open>title\<close>, \<^verbatim>\<open>author\<close>, \<^verbatim>\<open>publicationDate\<close>,
  \<^verbatim>\<open>source\<close> and \<^verbatim>\<open>articleBody\<close>, none of which is declared in a scope the handler sees, so
  the handler throws at the first of them and the record with \<^verbatim>\<open>content\<close> is never built.
\<close>

theorem scrapeArticleDetails_never_returns:
  "scrapeArticleDetails_try e articleUrl fallbackTitle siteName =
     Inl (ReferenceError (''Cannot access '' @ [CHR 0x27] @ ''$'' @ [CHR 0x27] @ '' before initialization''))
   \<and> resolve (catch_block_scope articleUrl fallbackTitle siteName) ''title'' =
       Inl (ReferenceError ''title is not defined'')
   \<and> resolve (catch_block_scope articleUrl fallbackTitle siteName) ''author'' =
       Inl (ReferenceError ''author is not defined'')
   \<and> resolve (catch_block_scope articleUrl fallbackTitle siteName) ''publicationDate'' =
       Inl (ReferenceError ''publicationDate is not defined'')
   \<and> resolve (catch_block_scope articleUrl fallbackTitle siteName) ''source'' =
       Inl (ReferenceError ''source is not defined'')
   \<and> resolve (catch_block_scope articleUrl fallbackTitle siteName) ''articleBody'' =
       Inl (ReferenceError ''articleBody is not defined'')
   \<and> scrapeArticleDetails_catch articleUrl fallbackTitle siteName =
       Inl (ReferenceError ''title is not defined'')
   \<and> scrapeArticleDetails e articleUrl fallbackTitle siteName =
       Inl (ReferenceError ''title is not defined'')
   \<and> (\<forall>a. scrapeArticleDetails e articleUrl fallbackTitle siteName \<noteq> Inr a)"
  by (simp add: scrapeArticleDetails_try_throws scrapeArticleDetails_catch_throws
      scrapeArticleDetails_throws resolve_catch)

text \<open>
  C3 (amended). With an empty target URL the four adapters are run together. When all four
  are fulfilled, their results are concatenated in the order BBC, The Verge, CNN, Hacker
  News, then filtered and sorted. An adapter whose listing-page fetch is rejected is
  itself rejected, and the rejection of any one adapter rejects \<^verbatim>\<open>scrapeNews\<close>: the
  results of the other adapters are not returned. Inside the BBC, Verge and CNN adapters
  a failed article fetch only omits that article: the adapter is fulfilled with the
  articles of its candidate links, the links of the returned articles are exactly the
  candidate links whose fetch succeeded, in order, and a list with a failing link gives
  the articles before it followed by the articles after it.
\<close>

theorem default_sites_all_or_nothing:
  "(scrapeBBC e = Inr bbc \<and> scrapeVerge e = Inr verge \<and> scrapeCNN e = Inr cnn \<and>
      scrapeHackerNews e = Inr hacker \<longrightarrow>
    scrapeNews e [] keyword sortBy =
      Inr (sortArticles e keyword sortBy (filterArticles keyword (bbc @ verge @ cnn @ hacker))))
   \<and> ((\<exists>err. scrapeBBC e = Inl err) \<or> (\<exists>err. scrapeVerge e = Inl err) \<or>
        (\<exists>err. scrapeCNN e = Inl err) \<or> (\<exists>err. scrapeHackerNews e = Inl err) \<longrightarrow>
       (\<exists>err. scrapeNews e [] keyword sortBy = Inl err))
   \<and> (axios_get e ''https://www.bbc.com/news'' None = Inl m \<longrightarrow> scrapeBBC e = Inl (AxiosError m))
   \<and> (axios_get e ''https://www.theverge.com/'' None = Inl m \<longrightarrow> scrapeVerge e = Inl (AxiosError m))
   \<and> (axios_get e ''https://edition.cnn.com/'' None = Inl m \<longrightarrow> scrapeCNN e = Inl (AxiosError m))
   \<and> (axios_get e ''https://news.ycombinator.com/'' None = Inl m \<longrightarrow>
        scrapeHackerNews e = Inl (AxiosError m))
   \<and> (axios_get e ''https://www.bbc.com/news'' None = Inr doc \<longrightarrow>
        scrapeBBC e = Inr (bbc_articles e (foldl bbc_link [] (doc ''a.gs-c-promo-heading''))))
   \<and> (axios_get e ''https://www.theverge.com/'' None = Inr doc \<longrightarrow>
        scrapeVerge e = Inr (verge_articles e (foldl verge_link [] (doc ''a[data-analytics-link=\"article\"]''))))
   \<and> (axios_get e ''https://edition.cnn.com/'' None = Inr doc \<longrightarrow>
        scrapeCNN e = Inr (cnn_articles e (foldl cnn_link [] (doc ''a[href^=\"/202\"]''))))
   \<and> map link (bbc_articles e ls) = map Some (filter (\<lambda>l. \<not> isl (axios_get e l None)) ls)
   \<and> map link (verge_articles e ls) = map Some (filter (\<lambda>l. \<not> isl (axios_get e l None)) ls)
   \<and> map link (cnn_articles e ls) = map Some (filter (\<lambda>l. \<not> isl (axios_get e l None)) ls)
   \<and> (axios_get e l None = Inl m \<longrightarrow>
        bbc_articles e (pre @ l # post) = bbc_articles e pre @ bbc_articles e post \<and>
        verge_articles e (pre @ l # post) = verge_articles e pre @ verge_articles e post \<and>
        cnn_articles e (pre @ l # post) = cnn_articles e pre @ cnn_articles e post)"
proof -
  have ok: "scrapeBBC e = Inr bbc \<and> scrapeVerge e = Inr verge \<and> scrapeCNN e = Inr cnn \<and>
      scrapeHackerNews e = Inr hacker \<longrightarrow>
    scrapeNews e [] keyword sortBy =
      Inr (sortArticles e keyword sortBy (filterArticles keyword (bbc @ verge @ cnn @ hacker)))"
    by (simp add: scrapeNews_def scrapeDefaultSites_def)
  have "\<exists>err. scrapeDefaultSites e = Inl err"
    if "(\<exists>err. scrapeBBC e = Inl err) \<or> (\<exists>err. scrapeVerge e = Inl err) \<or>
        (\<exists>err. scrapeCNN e = Inl err) \<or> (\<exists>err. scrapeHackerNews e = Inl err)"
    using that
    by (cases "scrapeBBC e"; cases "scrapeVerge e"; cases "scrapeCNN e"; cases "scrapeHackerNews e")
      (simp_all add: scrapeDefaultSites_def)
  then have bad: "(\<exists>err. scrapeBBC e = Inl err) \<or> (\<exists>err. scrapeVerge e = Inl err) \<or>
        (\<exists>err. scrapeCNN e = Inl err) \<or> (\<exists>err. scrapeHackerNews e = Inl err) \<longrightarrow>
       (\<exists>err. scrapeNews e [] keyword sortBy = Inl err)"
    by (auto simp: scrapeNews_def)
  have omit: "axios_get e l None = Inl m \<longrightarrow>
        bbc_articles e (pre @ l # post) = bbc_articles e pre @ bbc_articles e post \<and>
        verge_articles e (pre @ l # post) = verge_articles e pre @ verge_articles e post \<and>
        cnn_articles e (pre @ l # post) = cnn_articles e pre @ cnn_articles e post"
    by (simp add: bbc_articles_append verge_articles_append cnn_articles_append)
  show ?thesis
    by (intro conjI ok bad bbc_articles_links verge_articles_links cnn_articles_links omit)
      (simp_all add: scrapeBBC_def scrapeVerge_def scrapeCNN_def scrapeHackerNews_def hn_url_def)
qed

theorem default_sites_all_or_nothing_witness:
  "scrapeBBC mock =
     Inr [\<lparr>title = ''World report'', link = Some ''https://www.bbc.com/news/world-1'',
           author = ''BBC News'', publicationDate = ''2024-01-01'', source = ''BBC News'',
           content = None, error = None\<rparr>]
   \<and> scrapeVerge mock = Inr [] \<and> scrapeCNN mock = Inr []
   \<and> scrapeHackerNews mock =
     Inr [\<lparr>title = ''Show HN: a thing'', link = Some ''https://blog.example.com/post'',
           author = ''alice'', publicationDate = ''2 hours ago'', source = ''blog.example.com'',
           content = None, error = None\<rparr>,
          \<lparr>title = [], link = None, author = ''alice'', publicationDate = ''2 hours ago'',
           source = ''Unknown'', content = None, error = None\<rparr>]
   \<and> scrapeNews mock [] [] ''default'' =
     Inr [\<lparr>title = ''World report'', link = Some ''https://www.bbc.com/news/world-1'',
           author = ''BBC News'', publicationDate = ''2024-01-01'', source = ''BBC News'',
           content = None, error = None\<rparr>,
          \<lparr>title = ''Show HN: a thing'', link = Some ''https://blog.example.com/post'',
           author = ''alice'', publicationDate = ''2 hours ago'', source = ''blog.example.com'',
           content = None, error = None\<rparr>,
          \<lparr>title = [], link = None, author = ''alice'', publicationDate = ''2 hours ago'',
           source = ''Unknown'', content = None, error = None\<rparr>]
   \<and> axios_get mock ''https://www.bbc.com/news/world-3'' None = Inl ''Request failed with status code 404''
   \<and> bbc_articles mock
       [''https://www.bbc.com/news/world-3'', ''https://www.bbc.com/news/world-1'',
        ''https://www.bbc.com/news/world-4''] =
     [\<lparr>title = ''World report'', link = Some ''https://www.bbc.com/news/world-1'',
           author = ''BBC News'', publicationDate = ''2024-01-01'', source = ''BBC News'',
           content = None, error = None\<rparr>]
   \<and> map link (bbc_articles mock
       [''https://www.bbc.com/news/world-3'', ''https://www.bbc.com/news/world-1'',
        ''https://www.bbc.com/news/world-4'']) =
     [Some ''https://www.bbc.com/news/world-1'']
   \<and> axios_get mock_bbc_down ''https://www.bbc.com/news'' None = Inl ''timeout of 0ms exceeded''
   \<and> scrapeBBC mock_bbc_down = Inl (AxiosError ''timeout of 0ms exceeded'')
   \<and> (\<exists>err. scrapeNews mock_bbc_down [] [] ''default'' = Inl err)"
proof -
  have b: "scrapeBBC mock =
     Inr [\<lparr>title = ''World report'', link = Some ''https://www.bbc.com/news/world-1'',
           author = ''BBC News'', publicationDate = ''2024-01-01'', source = ''BBC News'',
           content = None, error = None\<rparr>]" by code_simp
  have v: "scrapeVerge mock = Inr []" by code_simp
  have c: "scrapeCNN mock = Inr []" by code_simp
  have h: "scrapeHackerNews mock =
     Inr [\<lparr>title = ''Show HN: a thing'', link = Some ''https://blog.example.com/post'',
           author = ''alice'', publicationDate = ''2 hours ago'', source = ''blog.example.com'',
           content = None, error = None\<rparr>,
          \<lparr>title = [], link = None, author = ''alice'', publicationDate = ''2 hours ago'',
           source = ''Unknown'', content = None, error = None\<rparr>]" by code_simp
  note t = default_sites_all_or_nothing
  have n: "scrapeNews mock [] [] ''default'' =
     Inr [\<lparr>title = ''World report'', link = Some ''https://www.bbc.com/news/world-1'',
           author = ''BBC News'', publicationDate = ''2024-01-01'', source = ''BBC News'',
           content = None, error = None\<rparr>,
          \<lparr>title = ''Show HN: a thing'', link = Some ''https://blog.example.com/post'',
           author = ''alice'', publicationDate = ''2 hours ago'', source = ''blog.example.com'',
           content = None, error = None\<rparr>,
          \<lparr>title = [], link = None, author = ''alice'', publicationDate = ''2 hours ago'',
           source = ''Unknown'', content = None, error = None\<rparr>]"
    using t[where e = mock and keyword = "[]" and sortBy = "''default''", THEN conjunct1] b v c h
    by (simp add: filterArticles_def sortArticles_def)
  have f3: "axios_get mock ''https://www.bbc.com/news/world-3'' None = Inl ''Request failed with status code 404''"
    by (simp add: mock_def mock_get_def)
  have f4: "axios_get mock ''https://www.bbc.com/news/world-4'' None = Inl ''Request failed with status code 404''"
    by (simp add: mock_def mock_get_def)
  have one: "bbc_articles mock [''https://www.bbc.com/news/world-1''] = [\<lparr>title = ''World report'', link = Some ''https://www.bbc.com/news/world-1'',
           author = ''BBC News'', publicationDate = ''2024-01-01'', source = ''BBC News'',
           content = None, error = None\<rparr>]"
    by code_simp
  have "bbc_articles mock ([] @ ''https://www.bbc.com/news/world-3'' #
          [''https://www.bbc.com/news/world-1'', ''https://www.bbc.com/news/world-4'']) =
        bbc_articles mock [] @
        bbc_articles mock [''https://www.bbc.com/news/world-1'', ''https://www.bbc.com/news/world-4'']"
    using t[where e = mock and l = "''https://www.bbc.com/news/world-3''" and pre = "[]"
        and post = "[''https://www.bbc.com/news/world-1'', ''https://www.bbc.com/news/world-4'']"] f3
    by blast
  moreover have "bbc_articles mock ([''https://www.bbc.com/news/world-1''] @
          ''https://www.bbc.com/news/world-4'' # []) =
        bbc_articles mock [''https://www.bbc.com/news/world-1''] @ bbc_articles mock []"
    using t[where e = mock and l = "''https://www.bbc.com/news/world-4''"
        and pre = "[''https://www.bbc.com/news/world-1'']" and post = "[]"] f4
    by blast
  ultimately have o: "bbc_articles mock
       [''https://www.bbc.com/news/world-3'', ''https://www.bbc.com/news/world-1'',
        ''https://www.bbc.com/news/world-4''] =
     [\<lparr>title = ''World report'', link = Some ''https://www.bbc.com/news/world-1'',
           author = ''BBC News'', publicationDate = ''2024-01-01'', source = ''BBC News'',
           content = None, error = None\<rparr>]"
    using one by simp
  have ls: "map link (bbc_articles mock
       [''https://www.bbc.com/news/world-3'', ''https://www.bbc.com/news/world-1'',
        ''https://www.bbc.com/news/world-4'']) =
     [Some ''https://www.bbc.com/news/world-1'']"
    by (simp only: o) simp
  have g: "axios_get mock_bbc_down ''https://www.bbc.com/news'' None = Inl ''timeout of 0ms exceeded''"
    by (simp add: mock_bbc_down_def)
  have bd: "scrapeBBC mock_bbc_down = Inl (AxiosError ''timeout of 0ms exceeded'')"
    using t[where e = mock_bbc_down, THEN conjunct2, THEN conjunct2, THEN conjunct1] g by simp
  have nd: "\<exists>err. scrapeNews mock_bbc_down [] [] ''default'' = Inl err"
    using t[where e = mock_bbc_down and keyword = "[]" and sortBy = "''default''",
        THEN conjunct2, THEN conjunct1] bd by blast
  show ?thesis by (intro conjI b v c h n f3 o ls g bd nd)
qed

text \<open>
  The claim as first stated: the failure of one adapter does not make the call fail. With
  the BBC listing page timing out and the three other adapters fulfilled, the call is
  rejected.
\<close>

theorem adapter_failure_counterexample:
  "scrapeVerge mock_bbc_down = Inr [] \<and> scrapeCNN mock_bbc_down = Inr []
   \<and> scrapeHackerNews mock_bbc_down =
     Inr [\<lparr>title = ''Show HN: a thing'', link = Some ''https://blog.example.com/post'',
           author = ''alice'', publicationDate = ''2 hours ago'', source = ''blog.example.com'',
           content = None, error = None\<rparr>,
          \<lparr>title = [], link = None, author = ''alice'', publicationDate = ''2 hours ago'',
           source = ''Unknown'', content = None, error = None\<rparr>]
   \<and> scrapeNews mock_bbc_down [] [] ''default'' = Inl (AxiosError ''timeout of 0ms exceeded'')"
  by code_simp

text \<open>
  C4 (amended). For every non-empty target URL that does not parse, or that is classified
  ListingLike and whose listing-page fetch is rejected, \<^verbatim>\<open>scrapeDynamicSite\<close> returns
  exactly one record with source \<^verbatim>\<open>Error\<close>, author \<^verbatim>\<open>System\<close>, the title
  \<^verbatim>\<open>Error scraping\<close> followed by the URL, and the message of the failure in \<^verbatim>\<open>error\<close>.
  \<^verbatim>\<open>scrapeNews\<close> never raises in this case; it returns that one record when the keyword
  is empty or occurs (case-insensitively) in the record's title, author or source, and
  the empty sequence otherwise, because the keyword filter applies to the error record as
  to any other.
\<close>

theorem listing_failure_record:
  assumes "targetUrl \<noteq> []"
    and "(new_URL e targetUrl None = None \<and> msg = ''Invalid URL'') \<or>
         (isLikelyArticleUrl e targetUrl = Inr False \<and> axios_get e targetUrl (Some 10000) = Inl msg)"
  shows "scrapeDynamicSite e targetUrl =
           [\<lparr>title = ''Error scraping '' @ targetUrl, link = Some targetUrl, author = ''System'',
             publicationDate = Date_now_toISOString e, source = ''Error'', content = None,
             error = Some msg\<rparr>]
         \<and> scrapeNews e targetUrl keyword sortBy =
           Inr (if keyword = [] \<or>
                   str_includes (toLowerCase (''Error scraping '' @ targetUrl)) (toLowerCase keyword) \<or>
                   str_includes ''system'' (toLowerCase keyword) \<or>
                   str_includes ''error'' (toLowerCase keyword)
                then scrapeDynamicSite e targetUrl else [])"
proof -
  let ?r = "\<lparr>title = ''Error scraping '' @ targetUrl, link = Some targetUrl, author = ''System'',
             publicationDate = Date_now_toISOString e, source = ''Error'', content = None,
             error = Some msg\<rparr>"
  have "\<exists>err. scrapeDynamicSite_try e targetUrl = Inl err \<and> message err = msg"
    using assms(2)
  proof
    assume "new_URL e targetUrl None = None \<and> msg = ''Invalid URL''"
    then show ?thesis by (simp add: scrapeDynamicSite_try_def)
  next
    assume a: "isLikelyArticleUrl e targetUrl = Inr False \<and> axios_get e targetUrl (Some 10000) = Inl msg"
    then obtain parsed where "new_URL e targetUrl None = Some parsed"
      by (cases "new_URL e targetUrl None") (auto simp: isLikelyArticleUrl_def)
    with a show ?thesis by (simp add: scrapeDynamicSite_try_def)
  qed
  then have d: "scrapeDynamicSite e targetUrl = [?r]"
    by (auto simp: scrapeDynamicSite_def error_record_def)
  have low: "toLowerCase ''System'' = ''system''" "toLowerCase ''Error'' = ''error''"
    by code_simp+
  have "scrapeNews e targetUrl keyword sortBy =
      Inr (sortArticles e keyword sortBy (filterArticles keyword [?r]))"
    using assms(1) d by (simp add: scrapeNews_def)
  moreover have "length (filterArticles keyword [?r]) < 2"
    by (simp add: filterArticles_def)
  ultimately have "scrapeNews e targetUrl keyword sortBy = Inr (filterArticles keyword [?r])"
    by (simp only: sortArticles_short)
  then show ?thesis using d by (simp add: filterArticles_def matches_keyword_def low)
qed

theorem listing_failure_record_witness:
  "''https://down.example/'' \<noteq> []
   \<and> isLikelyArticleUrl mock ''https://down.example/'' = Inr False
   \<and> axios_get mock ''https://down.example/'' (Some 10000) = Inl ''connect ECONNREFUSED''
   \<and> scrapeNews mock ''https://down.example/'' [] ''date'' =
       Inr [\<lparr>title = ''Error scraping https://down.example/'', link = Some ''https://down.example/'',
             author = ''System'', publicationDate = ''2024-06-01T12:00:00.000Z'', source = ''Error'',
             content = None, error = Some ''connect ECONNREFUSED''\<rparr>]
   \<and> scrapeNews mock ''not a url'' ''SYSTEM'' ''default'' =
       Inr [\<lparr>title = ''Error scraping not a url'', link = Some ''not a url'',
             author = ''System'', publicationDate = ''2024-06-01T12:00:00.000Z'', source = ''Error'',
             content = None, error = Some ''Invalid URL''\<rparr>]"
proof -
  have 1: "''https://down.example/'' \<noteq> []" by simp
  have 2: "isLikelyArticleUrl mock ''https://down.example/'' = Inr False" by code_simp
  have 3: "axios_get mock ''https://down.example/'' (Some 10000) = Inl ''connect ECONNREFUSED''"
    by (simp add: mock_def mock_get_def)
  have 4: "''not a url'' \<noteq> []" by simp
  have 5: "new_URL mock ''not a url'' None = None" by code_simp
  have clock: "Date_now_toISOString mock = ''2024-06-01T12:00:00.000Z''" by (simp add: mock_def)
  have low: "toLowerCase ''SYSTEM'' = ''system''" by code_simp
  have a: "scrapeNews mock ''https://down.example/'' [] ''date'' =
       Inr [\<lparr>title = ''Error scraping https://down.example/'', link = Some ''https://down.example/'',
             author = ''System'', publicationDate = ''2024-06-01T12:00:00.000Z'', source = ''Error'',
             content = None, error = Some ''connect ECONNREFUSED''\<rparr>]"
    using listing_failure_record[of "''https://down.example/''" mock "''connect ECONNREFUSED''" "[]" "''date''"]
      1 2 3 by (simp add: clock)
  have b: "scrapeNews mock ''not a url'' ''SYSTEM'' ''default'' =
       Inr [\<lparr>title = ''Error scraping not a url'', link = Some ''not a url'',
             author = ''System'', publicationDate = ''2024-06-01T12:00:00.000Z'', source = ''Error'',
             content = None, error = Some ''Invalid URL''\<rparr>]"
    using listing_failure_record[of "''not a url''" mock "''Invalid URL''" "''SYSTEM''" "''default''"]
      4 5 by (simp add: clock low)
  show ?thesis by (intro conjI 1 2 3 a b)
qed

text \<open>
  The claim as first stated: the call never returns an empty sequence. With the keyword
  \<^verbatim>\<open>zebra\<close> the error record is filtered out.
\<close>

theorem listing_failure_filtered_counterexample:
  "isLikelyArticleUrl mock ''https://down.example/'' = Inr False
   \<and> axios_get mock ''https://down.example/'' (Some 10000) = Inl ''connect ECONNREFUSED''
   \<and> scrapeNews mock ''https://down.example/'' ''zebra'' ''default'' = Inr []"
proof -
  have 1: "isLikelyArticleUrl mock ''https://down.example/'' = Inr False" by code_simp
  have 2: "axios_get mock ''https://down.example/'' (Some 10000) = Inl ''connect ECONNREFUSED''"
    by (simp add: mock_def mock_get_def)
  have 3: "scrapeNews mock ''https://down.example/'' ''zebra'' ''default'' = Inr []" by code_simp
  show ?thesis by (intro conjI 1 2 3)
qed

text \<open>
  C5 (amended). The classifier is a function of the path of the URL alone. It answers
  ArticleLike exactly when the path contains \<^verbatim>\<open>/articles/\<close>, or a dated part
  \<^verbatim>\<open>/202Y/MM/DD/\<close> (years 2020-2029 only; month and day are any two digits), or one of
  the words news, story, article, post, politics, tech, business in any letter case
  between two slashes (so not as the last segment of a path without a closing slash).
  Every other URL that parses is ListingLike.
\<close>

theorem classifier_decides:
  assumes "new_URL e u None = Some parsed"
  shows "isLikelyArticleUrl e u = Inr (article_like (pathname parsed))"
  using assms by (simp add: isLikelyArticleUrl_def isLikelyArticlePath_iff)

theorem classifier_decides_witness:
  "new_URL mock ''https://example.org/2024/05/01/story'' None =
     Some (mk_url ''https://example.org'' ''example.org'' ''/2024/05/01/story'')
   \<and> isLikelyArticleUrl mock ''https://example.org/2024/05/01/story'' =
       Inr (article_like (pathname (mk_url ''https://example.org'' ''example.org'' ''/2024/05/01/story'')))
   \<and> isLikelyArticleUrl mock ''https://example.org/2024/05/01/story'' = Inr True
   \<and> isLikelyArticleUrl mock ''https://example.org/section/tech'' = Inr False"
proof -
  have h: "new_URL mock ''https://example.org/2024/05/01/story'' None =
     Some (mk_url ''https://example.org'' ''example.org'' ''/2024/05/01/story'')"
    by code_simp
  have t: "isLikelyArticleUrl mock ''https://example.org/2024/05/01/story'' = Inr True"
    by code_simp
  have f: "isLikelyArticleUrl mock ''https://example.org/section/tech'' = Inr False"
    by code_simp
  show ?thesis by (intro conjI h classifier_decides[OF h] t f)
qed

text \<open>
  The claim as first stated covers every year 2000-2099. The path \<^verbatim>\<open>/2019/05/01/x\<close> meets
  that wording and is classified ListingLike.
\<close>

theorem classifier_year_counterexample:
  "spec_classify ''/2019/05/01/x'' \<and> \<not> isLikelyArticlePath ''/2019/05/01/x''
   \<and> isLikelyArticleUrl mock ''https://example.org/2019/05/01/x'' = Inr False"
  by code_simp

text \<open>
  C6. For every record list, sorting with \<^verbatim>\<open>sortBy = "date"\<close> returns a permutation of the
  list in which the records whose \<^verbatim>\<open>publicationDate\<close> parses come first, in descending
  order of the parsed date, and all records whose date does not parse follow them in
  their original relative order.
\<close>

theorem sort_by_date:
  "mset (sortArticles e keyword ''date'' xs) = mset xs \<and>
   sortArticles e keyword ''date'' xs =
     filter (\<lambda>a. parsedDate e a \<noteq> None) (sortArticles e keyword ''date'' xs) @
     filter (\<lambda>a. parsedDate e a = None) xs \<and>
   sorted_wrt (\<lambda>a b. timeOf e a \<ge> timeOf e b)
     (filter (\<lambda>a. parsedDate e a \<noteq> None) (sortArticles e keyword ''date'' xs))"
proof -
  let ?ys = "Array_sort (compareByDate e) xs"
  let ?V = "\<lambda>a. parsedDate e a \<noteq> None"
  have ys: "sortArticles e keyword ''date'' xs = ?ys" by (simp add: sortArticles_def)
  have perm: "mset ?ys = mset xs" by (rule Array_sort_mset)
  have "?ys = filter ?V ?ys @ filter (\<lambda>x. \<not> ?V x) ?ys"
    by (rule split_sorted[OF date_sorted])
      (auto simp: compareByDate_def parsedDate_def split: option.splits)
  moreover have "filter (\<lambda>x. \<not> ?V x) ?ys = filter (\<lambda>a. parsedDate e a = None) xs"
    using date_stable[of e None xs] by (simp add: parsedDate_def)
  ultimately have split: "?ys = filter ?V ?ys @ filter (\<lambda>a. parsedDate e a = None) xs"
    by simp
  have "sorted_wrt (\<lambda>a b. 0 \<le> compareByDate e b a) (filter ?V ?ys)"
    using date_sorted by (rule sorted_wrt_filter)
  then have desc: "sorted_wrt (\<lambda>a b. timeOf e a \<ge> timeOf e b) (filter ?V ?ys)"
    by (rule sorted_wrt_mono_rel[rotated])
      (auto simp: compareByDate_def parsedDate_def timeOf_def split: option.splits)
  show ?thesis unfolding ys by (intro conjI perm split desc)
qed

theorem sort_by_date_witness:
  "sortArticles mock [] ''date''
     [dated ''a'' ''2024-01-01'', dated ''b'' ''Unknown'', dated ''c'' ''2024-06-01'', dated ''d'' ''soon''] =
     [dated ''c'' ''2024-06-01'', dated ''a'' ''2024-01-01'', dated ''b'' ''Unknown'', dated ''d'' ''soon'']
   \<and> filter (\<lambda>a. parsedDate mock a = None)
       [dated ''a'' ''2024-01-01'', dated ''b'' ''Unknown'', dated ''c'' ''2024-06-01'', dated ''d'' ''soon''] =
     [dated ''b'' ''Unknown'', dated ''d'' ''soon'']
   \<and> sortArticles mock [] ''date''
       [dated ''a'' ''2024-01-01'', dated ''b'' ''Unknown'', dated ''c'' ''2024-06-01'', dated ''d'' ''soon''] =
     filter (\<lambda>a. parsedDate mock a \<noteq> None)
       (sortArticles mock [] ''date''
         [dated ''a'' ''2024-01-01'', dated ''b'' ''Unknown'', dated ''c'' ''2024-06-01'', dated ''d'' ''soon'']) @
     filter (\<lambda>a. parsedDate mock a = None)
       [dated ''a'' ''2024-01-01'', dated ''b'' ''Unknown'', dated ''c'' ''2024-06-01'', dated ''d'' ''soon'']"
proof -
  let ?xs = "[dated ''a'' ''2024-01-01'', dated ''b'' ''Unknown'', dated ''c'' ''2024-06-01'', dated ''d'' ''soon'']"
  have ev: "sortArticles mock [] ''date'' ?xs =
     [dated ''c'' ''2024-06-01'', dated ''a'' ''2024-01-01'', dated ''b'' ''Unknown'', dated ''d'' ''soon'']"
    by code_simp
  have un: "filter (\<lambda>a. parsedDate mock a = None) ?xs = [dated ''b'' ''Unknown'', dated ''d'' ''soon'']"
    by code_simp
  show ?thesis
    by (intro conjI ev un sort_by_date[of mock "[]" ?xs, THEN conjunct2, THEN conjunct1])
qed

text \<open>
  C7 (amended). In the dynamic listing path (a non-empty URL that parses, is classified
  ListingLike and whose listing page is fetched), the extraction of every discovered
  candidate fails and is caught per candidate, so the request as a whole does not fail:
  \<^verbatim>\<open>scrapeDynamicSite\<close> returns, in discovery order, one degraded record per candidate,
  with the anchor text as title, the resolved URL as link, author and publication date
  \<^verbatim>\<open>Unknown\<close> and the hostname of the site as source. \<^verbatim>\<open>run\<close> returns these records
  after its keyword filter and its sort, for every keyword and sort order; with an empty
  keyword and the default order it returns all of them in discovery order.
\<close>

theorem dynamic_listing_degrades:
  assumes "u \<noteq> []"
    and "new_URL e u None = Some parsed"
    and "isLikelyArticleUrl e u = Inr False"
    and "axios_get e u (Some 10000) = Inr doc"
    and "discoverLinks e doc (origin parsed) = Inr links"
  shows "scrapeDynamicSite e u =
           map (\<lambda>l. \<lparr>title = snd l, link = Some (fst l), author = ''Unknown'',
                      publicationDate = ''Unknown'', source = hostname parsed,
                      content = None, error = None\<rparr>) links
         \<and> scrapeNews e u keyword sortBy =
             Inr (sortArticles e keyword sortBy (filterArticles keyword (scrapeDynamicSite e u)))
         \<and> scrapeNews e u [] ''default'' = Inr (scrapeDynamicSite e u)"
proof -
  have "scrapeDynamicSite_try e u = Inr (map (degraded (hostname parsed)) links)"
    using assms(2-5) by (simp add: scrapeDynamicSite_try_def scrapeCandidates_degraded)
  then have "scrapeDynamicSite e u = map (degraded (hostname parsed)) links"
    by (simp add: scrapeDynamicSite_def)
  moreover have "degraded (hostname parsed) =
      (\<lambda>l. \<lparr>title = snd l, link = Some (fst l), author = ''Unknown'',
                      publicationDate = ''Unknown'', source = hostname parsed,
                      content = None, error = None\<rparr>)"
    by (rule ext) (simp add: degraded_def)
  moreover have "scrapeNews e u keyword sortBy =
             Inr (sortArticles e keyword sortBy (filterArticles keyword (scrapeDynamicSite e u)))"
    using assms(1) by (simp add: scrapeNews_def)
  moreover have "scrapeNews e u [] ''default'' = Inr (scrapeDynamicSite e u)"
    using assms(1) by (simp add: scrapeNews_def filterArticles_def sortArticles_def)
  ultimately show ?thesis by simp
qed

theorem dynamic_listing_degrades_witness:
  "''https://example.org/'' \<noteq> []
   \<and> new_URL mock ''https://example.org/'' None = Some (mk_url ''https://example.org'' ''example.org'' ''/'')
   \<and> isLikelyArticleUrl mock ''https://example.org/'' = Inr False
   \<and> axios_get mock ''https://example.org/'' (Some 10000) = Inr listing_page
   \<and> discoverLinks mock listing_page (origin (mk_url ''https://example.org'' ''example.org'' ''/'')) =
       Inr [(''https://example.org/story/alpha'', ''Alpha story headline''),
            (''https://example.org/story/alpha'', ''Alpha: the second headline'')]
   \<and> scrapeDynamicSite mock ''https://example.org/'' =
       [\<lparr>title = ''Alpha story headline'', link = Some ''https://example.org/story/alpha'',
         author = ''Unknown'', publicationDate = ''Unknown'', source = ''example.org'',
         content = None, error = None\<rparr>,
        \<lparr>title = ''Alpha: the second headline'', link = Some ''https://example.org/story/alpha'',
         author = ''Unknown'', publicationDate = ''Unknown'', source = ''example.org'',
         content = None, error = None\<rparr>]"
proof -
  have 1: "''https://example.org/'' \<noteq> []" by simp
  have 2: "new_URL mock ''https://example.org/'' None =
      Some (mk_url ''https://example.org'' ''example.org'' ''/'')" by code_simp
  have 3: "isLikelyArticleUrl mock ''https://example.org/'' = Inr False" by code_simp
  have 4: "axios_get mock ''https://example.org/'' (Some 10000) = Inr listing_page"
    by (simp add: mock_def mock_get_def)
  have 5: "discoverLinks mock listing_page (origin (mk_url ''https://example.org'' ''example.org'' ''/'')) =
       Inr [(''https://example.org/story/alpha'', ''Alpha story headline''),
            (''https://example.org/story/alpha'', ''Alpha: the second headline'')]"
    by code_simp
  have 6: "scrapeDynamicSite mock ''https://example.org/'' =
       [\<lparr>title = ''Alpha story headline'', link = Some ''https://example.org/story/alpha'',
         author = ''Unknown'', publicationDate = ''Unknown'', source = ''example.org'',
         content = None, error = None\<rparr>,
        \<lparr>title = ''Alpha: the second headline'', link = Some ''https://example.org/story/alpha'',
         author = ''Unknown'', publicationDate = ''Unknown'', source = ''example.org'',
         content = None, error = None\<rparr>]"
    using dynamic_listing_degrades[OF 1 2 3 4 5, THEN conjunct1] by (simp add: mk_url_def)
  show ?thesis by (intro conjI 1 2 3 4 5 6)
qed

text \<open>
  The claim as first stated: \<^verbatim>\<open>run\<close> emits a degraded record for every candidate, in
  discovery order. With two candidates discovered, the keyword \<^verbatim>\<open>zebra\<close> leaves no record
  and the keyword \<^verbatim>\<open>second\<close> leaves the second one only.
\<close>

theorem dynamic_listing_filtered_counterexample:
  "new_URL mock ''https://example.org/'' None = Some (mk_url ''https://example.org'' ''example.org'' ''/'')
   \<and> isLikelyArticleUrl mock ''https://example.org/'' = Inr False
   \<and> discoverLinks mock listing_page ''https://example.org'' =
       Inr [(''https://example.org/story/alpha'', ''Alpha story headline''),
            (''https://example.org/story/alpha'', ''Alpha: the second headline'')]
   \<and> scrapeNews mock ''https://example.org/'' ''zebra'' ''default'' = Inr []
   \<and> scrapeNews mock ''https://example.org/'' ''second'' ''default'' =
       Inr [\<lparr>title = ''Alpha: the second headline'', link = Some ''https://example.org/story/alpha'',
             author = ''Unknown'', publicationDate = ''Unknown'', source = ''example.org'',
             content = None, error = None\<rparr>]"
  by code_simp

text \<open>
  C8 (amended). Whenever link discovery returns, it returns the first 8 of the collected
  candidates; at most 10 candidates are collected; every candidate comes from an anchor
  whose trimmed text is longer than 10 characters and whose \<^verbatim>\<open>href\<close> attribute, as
  written in the page, contains neither \<^verbatim>\<open>tag\<close> nor \<^verbatim>\<open>mailto\<close> (the resolved URL of the
  entry is not tested); no pair (resolved URL, anchor text) occurs twice; and as long as
  fewer than 10 candidates were collected, the pair of every kept anchor is among them,
  so one URL under two different anchor texts gives two entries.
\<close>

theorem link_discovery_bounds:
  assumes "collectLinks e doc baseUrl = Inr found"
  shows "discoverLinks e doc baseUrl = Inr (take 8 found)
         \<and> length (take 8 found) \<le> 8
         \<and> length found \<le> 10
         \<and> distinct found
         \<and> (\<forall>l \<in> set found. \<exists>el \<in> set (concat (map doc linkSelectors)). kept_link e baseUrl el l)
         \<and> (length found < 10 \<longrightarrow>
              (\<forall>el \<in> set (concat (map doc linkSelectors)). \<forall>l. kept_link e baseUrl el l \<longrightarrow> l \<in> set found))"
proof -
  have "visit_links e baseUrl [] (concat (map doc linkSelectors)) = Inr found"
    using assms by (simp add: collectLinks_def)
  from visit_links_invariant[OF this]
  have "length found \<le> 10" "distinct found"
    "\<forall>l \<in> set found. \<exists>el \<in> set (concat (map doc linkSelectors)). kept_link e baseUrl el l"
    "length found < 10 \<longrightarrow>
       (\<forall>el \<in> set (concat (map doc linkSelectors)). \<forall>l. kept_link e baseUrl el l \<longrightarrow> l \<in> set found)"
    by auto
  moreover have "discoverLinks e doc baseUrl = Inr (take 8 found)"
    using assms by (simp add: discoverLinks_def)
  ultimately show ?thesis by simp
qed

theorem link_discovery_bounds_witness:
  "collectLinks mock listing_page ''https://example.org'' =
     Inr [(''https://example.org/story/alpha'', ''Alpha story headline''),
          (''https://example.org/story/alpha'', ''Alpha: the second headline'')]
   \<and> discoverLinks mock listing_page ''https://example.org'' =
     Inr [(''https://example.org/story/alpha'', ''Alpha story headline''),
          (''https://example.org/story/alpha'', ''Alpha: the second headline'')]
   \<and> distinct [(''https://example.org/story/alpha'', ''Alpha story headline''),
          (''https://example.org/story/alpha'', ''Alpha: the second headline'')]"
proof -
  have c: "collectLinks mock listing_page ''https://example.org'' =
     Inr [(''https://example.org/story/alpha'', ''Alpha story headline''),
          (''https://example.org/story/alpha'', ''Alpha: the second headline'')]"
    by code_simp
  have d: "discoverLinks mock listing_page ''https://example.org'' =
     Inr [(''https://example.org/story/alpha'', ''Alpha story headline''),
          (''https://example.org/story/alpha'', ''Alpha: the second headline'')]"
    using link_discovery_bounds[OF c, THEN conjunct1] by simp
  have t: "distinct [(''https://example.org/story/alpha'', ''Alpha story headline''),
          (''https://example.org/story/alpha'', ''Alpha: the second headline'')]"
    using link_discovery_bounds[OF c] by blast
  show ?thesis by (intro conjI c d t)
qed

text \<open>
  The claim as first stated: no returned entry holds \<^verbatim>\<open>tag\<close> or \<^verbatim>\<open>mailto\<close>. The test is
  made on the attribute as written and the entry stores the resolved URL: on a site whose
  origin contains \<^verbatim>\<open>tag\<close>, a relative link without it is returned with it.
\<close>

theorem resolved_link_contains_tag_counterexample:
  "cheerio_attr (tagesschau_page ''h3 a'') ''href'' = Some ''/inland/bericht-101''
   \<and> \<not> str_includes ''/inland/bericht-101'' ''tag''
   \<and> discoverLinks tagesschau tagesschau_page ''https://www.tagesschau.de'' =
       Inr [(''https://www.tagesschau.de/inland/bericht-101'', ''Bericht aus dem Inland'')]
   \<and> str_includes ''https://www.tagesschau.de/inland/bericht-101'' ''tag''
   \<and> scrapeNews tagesschau ''https://www.tagesschau.de/'' [] ''default'' =
       Inr [\<lparr>title = ''Bericht aus dem Inland'',
             link = Some ''https://www.tagesschau.de/inland/bericht-101'',
             author = ''Unknown'', publicationDate = ''Unknown'', source = ''www.tagesschau.de'',
             content = None, error = None\<rparr>]"
  by code_simp

text \<open>
  C9. For every record list and every non-empty keyword, sorting with
  \<^verbatim>\<open>sortBy = "relevance"\<close> is a stable partition: the records whose lower-cased title
  contains the lower-cased keyword, in their original order, followed by the other
  records, in their original order.
\<close>

theorem sort_by_relevance:
  assumes "keyword \<noteq> []"
  shows "sortArticles e keyword ''relevance'' xs =
     filter (hasKeywordInTitle (toLowerCase keyword)) xs @
     filter (\<lambda>a. \<not> hasKeywordInTitle (toLowerCase keyword) a) xs"
proof -
  let ?k = "toLowerCase keyword"
  let ?ys = "Array_sort (compareByRelevance ?k) xs"
  have "?ys = filter (hasKeywordInTitle ?k) ?ys @ filter (\<lambda>x. \<not> hasKeywordInTitle ?k x) ?ys"
    by (rule split_sorted[OF relevance_sorted])
      (auto simp: compareByRelevance_def Let_def split: if_splits)
  moreover have "filter (hasKeywordInTitle ?k) ?ys = filter (hasKeywordInTitle ?k) xs"
    using relevance_stable[of ?k True xs] by simp
  moreover have "filter (\<lambda>x. \<not> hasKeywordInTitle ?k x) ?ys = filter (\<lambda>x. \<not> hasKeywordInTitle ?k x) xs"
    using relevance_stable[of ?k False xs] by simp
  ultimately have "?ys = filter (hasKeywordInTitle ?k) xs @ filter (\<lambda>x. \<not> hasKeywordInTitle ?k x) xs"
    by simp
  then show ?thesis using assms by (simp add: sortArticles_def)
qed

theorem sort_by_relevance_witness:
  "''ai'' \<noteq> [] \<and>
   sortArticles mock ''ai'' ''relevance''
     [dated ''Local news'' ''Unknown'', dated ''AI breakthrough'' ''Unknown'', dated ''Weather'' ''x'',
      dated ''Fair trade'' ''y''] =
   filter (hasKeywordInTitle (toLowerCase ''ai''))
     [dated ''Local news'' ''Unknown'', dated ''AI breakthrough'' ''Unknown'', dated ''Weather'' ''x'',
      dated ''Fair trade'' ''y''] @
   filter (\<lambda>a. \<not> hasKeywordInTitle (toLowerCase ''ai'') a)
     [dated ''Local news'' ''Unknown'', dated ''AI breakthrough'' ''Unknown'', dated ''Weather'' ''x'',
      dated ''Fair trade'' ''y'']
   \<and> sortArticles mock ''ai'' ''relevance''
     [dated ''Local news'' ''Unknown'', dated ''AI breakthrough'' ''Unknown'', dated ''Weather'' ''x'',
      dated ''Fair trade'' ''y''] =
     [dated ''AI breakthrough'' ''Unknown'', dated ''Fair trade'' ''y'', dated ''Local news'' ''Unknown'',
      dated ''Weather'' ''x'']"
proof -
  have k: "''ai'' \<noteq> []" by simp
  have ev: "sortArticles mock ''ai'' ''relevance''
     [dated ''Local news'' ''Unknown'', dated ''AI breakthrough'' ''Unknown'', dated ''Weather'' ''x'',
      dated ''Fair trade'' ''y''] =
     [dated ''AI breakthrough'' ''Unknown'', dated ''Fair trade'' ''y'', dated ''Local news'' ''Unknown'',
      dated ''Weather'' ''x'']"
    by code_simp
  show ?thesis by (intro conjI k ev sort_by_relevance[OF k])
qed

text \<open>
  C10 (amended). Two calls with the same target URL, keyword and sort order against the
  same URL parser, fetch capability and date parser return the same outcome, except that
  the \<^verbatim>\<open>publicationDate\<close> of a synthetic error record is the wall-clock time of the call
  that built it: the outcome at clock reading \<^verbatim>\<open>c\<close> is the outcome at any other reading
  with the date of every error record replaced by \<^verbatim>\<open>c\<close>.
\<close>

theorem same_inputs_same_output_up_to_clock:
  "scrapeNews (e\<lparr>Date_now_toISOString := c\<rparr>) targetUrl keyword sortBy =
     map_sum id (map (\<lambda>r. if error r = None then r else r\<lparr>publicationDate := c\<rparr>))
       (scrapeNews e targetUrl keyword sortBy)"
proof (cases "targetUrl = []")
  case True
  show ?thesis
  proof (cases "scrapeDefaultSites e")
    case (Inl err)
    then show ?thesis using True by (simp add: scrapeNews_def scrapeDefaultSites_clock)
  next
    case (Inr xs)
    then have "\<forall>r \<in> set xs. error r = None" by (rule scrapeDefaultSites_no_error)
    then show ?thesis using True Inr
      by (simp add: scrapeNews_def scrapeDefaultSites_clock sortArticles_clock restamp_unmarked)
  qed
next
  case False
  show ?thesis
  proof (cases "scrapeDynamicSite_try e targetUrl")
    case (Inr xs)
    then have "\<forall>r \<in> set xs. error r = None" by (rule scrapeDynamicSite_try_no_error)
    then show ?thesis using False Inr
      by (simp add: scrapeNews_def scrapeDynamicSite_def scrapeDynamicSite_try_clock
          sortArticles_clock restamp_unmarked)
  next
    case (Inl err)
    let ?r = "error_record e targetUrl err"
    let ?r' = "error_record (e\<lparr>Date_now_toISOString := c\<rparr>) targetUrl err"
    have r': "?r' = ?r\<lparr>publicationDate := c\<rparr>" by (simp add: error_record_def)
    have m: "matches_keyword k ?r' = matches_keyword k ?r" for k
      by (simp add: matches_keyword_def error_record_def)
    have f: "filterArticles keyword [?r'] =
        map (\<lambda>r. if error r = None then r else r\<lparr>publicationDate := c\<rparr>) (filterArticles keyword [?r])"
      using m by (simp add: filterArticles_def r') (simp add: error_record_def)
    have s1: "sortArticles (e\<lparr>Date_now_toISOString := c\<rparr>) keyword sortBy (filterArticles keyword [?r']) =
        filterArticles keyword [?r']"
      by (rule sortArticles_short) (simp add: filterArticles_def)
    have s2: "sortArticles e keyword sortBy (filterArticles keyword [?r]) = filterArticles keyword [?r]"
      by (rule sortArticles_short) (simp add: filterArticles_def)
    have "scrapeNews (e\<lparr>Date_now_toISOString := c\<rparr>) targetUrl keyword sortBy =
        Inr (filterArticles keyword [?r'])"
      using False Inl by (simp add: scrapeNews_def scrapeDynamicSite_def scrapeDynamicSite_try_clock s1)
    moreover have "scrapeNews e targetUrl keyword sortBy = Inr (filterArticles keyword [?r])"
      using False Inl by (simp add: scrapeNews_def scrapeDynamicSite_def s2)
    ultimately show ?thesis by (simp add: f)
  qed
qed

theorem same_inputs_same_output_up_to_clock_witness:
  "scrapeNews (mock\<lparr>Date_now_toISOString := ''2024-06-01T12:00:01.000Z''\<rparr>)
     ''https://down.example/'' [] ''default'' =
   map_sum id
     (map (\<lambda>r. if error r = None then r else r\<lparr>publicationDate := ''2024-06-01T12:00:01.000Z''\<rparr>))
     (scrapeNews mock ''https://down.example/'' [] ''default'')
   \<and> scrapeNews (mock\<lparr>Date_now_toISOString := ''2024-06-01T12:00:01.000Z''\<rparr>)
       ''https://example.org/'' [] ''default'' =
     scrapeNews mock ''https://example.org/'' [] ''default''"
proof -
  have "scrapeNews (mock\<lparr>Date_now_toISOString := ''2024-06-01T12:00:01.000Z''\<rparr>)
       ''https://example.org/'' [] ''default'' =
     scrapeNews mock ''https://example.org/'' [] ''default''"
    by code_simp
  then show ?thesis
    by (intro conjI same_inputs_same_output_up_to_clock)
qed

text \<open>
  The claim as first stated includes the synthetic error records. Two calls one second
  apart on a host that refuses the connection return different records.
\<close>

theorem clock_in_error_record_counterexample:
  "scrapeNews mock ''https://down.example/'' [] ''default'' \<noteq>
   scrapeNews (mock\<lparr>Date_now_toISOString := ''2024-06-01T12:00:01.000Z''\<rparr>)
     ''https://down.example/'' [] ''default''"
  by code_simp

end
